theory Spec2Isabelle
  imports Main "HOL-Library.AList"
begin

section \<open>JavaScript values and strings\<close>

text \<open>
  A JavaScript string is a sequence of UTF-16 code units; \<open>length\<close> counts code units
  and the regular expressions of the server (none has the \<open>u\<close> flag) work on code units.
  A code unit is modelled by its number.
\<close>

type_synonym codeunit = nat
type_synonym jsstring = "codeunit list"

text \<open>The code units of an ASCII literal.\<close>

definition js :: "string \<Rightarrow> jsstring" where
  "js s = map of_char s"

text \<open>
  The values a client can put into an event argument or a JSON body, as far as the
  server tells them apart: a string, \<open>undefined\<close> (an absent property), another falsy
  value (\<open>null\<close>, \<open>false\<close>, \<open>0\<close>) and another truthy value (\<open>true\<close>, a non-zero number,
  an object, an array). None of the last three has a method \<open>replace\<close> or
  \<open>toLowerCase\<close>, so calling one raises a TypeError.
\<close>

datatype jsvalue = JString jsstring | JUndefined | JFalsy | JTruthy

fun truthy :: "jsvalue \<Rightarrow> bool" where
  "truthy (JString s) = (s \<noteq> [])"
| "truthy JUndefined = False"
| "truthy JFalsy = False"
| "truthy JTruthy = True"

definition LT :: codeunit where "LT = 60"
definition GT :: codeunit where "GT = 62"

text \<open>
  The code units of the productions WhiteSpace and LineTerminator of ECMAScript: what
  \<open>String.prototype.trim\<close> strips and what the class escape \<open>\s\<close> matches.
\<close>

definition isWhiteSpace :: "codeunit \<Rightarrow> bool" where
  "isWhiteSpace c \<longleftrightarrow>
     (9 \<le> c \<and> c \<le> 13) \<or> c = 32 \<or> c = 160 \<or> c = 5760 \<or> (8192 \<le> c \<and> c \<le> 8202) \<or>
     c = 8232 \<or> c = 8233 \<or> c = 8239 \<or> c = 8287 \<or> c = 12288 \<or> c = 65279"

definition isUpper :: "codeunit \<Rightarrow> bool" where
  "isUpper c \<longleftrightarrow> 65 \<le> c \<and> c \<le> 90"

definition isLower :: "codeunit \<Rightarrow> bool" where
  "isLower c \<longleftrightarrow> 97 \<le> c \<and> c \<le> 122"

definition isDigit :: "codeunit \<Rightarrow> bool" where
  "isDigit c \<longleftrightarrow> 48 \<le> c \<and> c \<le> 57"

text \<open>\<open>String.prototype.trim\<close>.\<close>

definition trim :: "jsstring \<Rightarrow> jsstring" where
  "trim s = rev (dropWhile isWhiteSpace (rev (dropWhile isWhiteSpace s)))"

text \<open>\<open>s.replace(/[<>]/g, '')\<close>.\<close>

definition stripAngles :: "jsstring \<Rightarrow> jsstring" where
  "stripAngles s = filter (\<lambda>c. c \<noteq> LT \<and> c \<noteq> GT) s"

text \<open>
  \<open>String.prototype.toLowerCase\<close> is a built-in of the runtime with the case tables of
  Unicode behind it. The functions that call it take it as the parameter \<open>lc\<close>.
  On a string of ASCII code units it is \<open>asciiToLowerCase\<close>.
\<close>

definition asciiToLowerCase :: "jsstring \<Rightarrow> jsstring" where
  "asciiToLowerCase s = map (\<lambda>c. if isUpper c then c + 32 else c) s"

section \<open>Username policy\<close>

definition sanitizeUsername :: "jsstring \<Rightarrow> jsstring" where
  "sanitizeUsername name = trim (stripAngles name)"

text \<open>The class \<open>[a-zA-Z0-9\s_-]\<close>; 95 is the underscore and 45 the hyphen.\<close>

definition usernameChar :: "codeunit \<Rightarrow> bool" where
  "usernameChar c \<longleftrightarrow>
     isLower c \<or> isUpper c \<or> isDigit c \<or> isWhiteSpace c \<or> c = 95 \<or> c = 45"

text \<open>
  \<open>isValidUsername\<close>: the string is truthy (not empty), its length is between 1 and 20,
  the whole of it matches \<open>/^[a-zA-Z0-9\s_-]+$/\<close>, and its lower-case form is not in
  \<open>bannedUsers\<close>.
\<close>

definition isValidUsername :: "(jsstring \<Rightarrow> jsstring) \<Rightarrow> jsstring set \<Rightarrow> jsstring \<Rightarrow> bool" where
  "isValidUsername lc banned name \<longleftrightarrow>
     name \<noteq> [] \<and> length name \<ge> 1 \<and> length name \<le> 20 \<and>
     list_all usernameChar name \<and> lc name \<notin> banned"

section \<open>Message policy\<close>

text \<open>
  The regular expression of \<open>sanitizeMessage\<close> is
  \<open>/<script\b[^<]*(?:(?!<\/script>)<[^<]*)*<\/script>/gi\<close>.
  With the flag \<open>i\<close> and without \<open>u\<close>, an ASCII letter of the pattern matches a code unit
  whose canonical form (its upper case, for a code unit below 128) is the letter's; the
  canonical form of a code unit from 128 on is never below 128.
\<close>

definition canonicalize :: "codeunit \<Rightarrow> codeunit" where
  "canonicalize c = (if isLower c then c - 32 else c)"

fun ciPrefix :: "jsstring \<Rightarrow> jsstring \<Rightarrow> bool" where
  "ciPrefix [] s = True"
| "ciPrefix (p # ps) [] = False"
| "ciPrefix (p # ps) (c # cs) = (canonicalize c = canonicalize p \<and> ciPrefix ps cs)"

definition isWordChar :: "codeunit \<Rightarrow> bool" where
  "isWordChar c \<longleftrightarrow> isLower c \<or> isUpper c \<or> isDigit c \<or> c = 95"

definition openTag :: jsstring where
  "openTag = js ''<script''"

definition closeTag :: jsstring where
  "closeTag = js ''</script>''"

text \<open>
  \<open>\b\<close> stands after the word character \<open>t\<close>: it holds when the input ends there or
  goes on with a code unit that is not a word character.
\<close>

fun wordBoundary :: "jsstring \<Rightarrow> bool" where
  "wordBoundary [] = True"
| "wordBoundary (c # cs) = (\<not> isWordChar c)"

text \<open>
  \<open>[^<]*(?:(?!<\/script>)<[^<]*)*<\/script>\<close> from the head of the input; the result is
  the input left after the match. Both starred classes stop only before a \<open><\<close> (what
  follows them in the pattern starts with \<open><\<close>, so giving code units back never
  helps), and at a \<open><\<close> the group and the closing tag exclude each other through
  the lookahead: the match ends with the first closing tag.
\<close>

fun scriptTail :: "jsstring \<Rightarrow> jsstring option" where
  "scriptTail [] = None"
| "scriptTail (c # cs) =
     (if c \<noteq> LT then scriptTail cs
      else if ciPrefix closeTag (c # cs) then Some (drop (length closeTag) (c # cs))
      else scriptTail cs)"

text \<open>The whole expression at the head of the input.\<close>

definition matchScript :: "jsstring \<Rightarrow> jsstring option" where
  "matchScript s =
     (if ciPrefix openTag s \<and> wordBoundary (drop (length openTag) s)
      then scriptTail (drop (length openTag) s) else None)"

lemma length_closeTag: "length closeTag = 9"
  by (simp add: closeTag_def js_def)


lemma scriptTail_shorter: "scriptTail s = Some r \<Longrightarrow> length r < length s"
  by (induction s) (auto simp: length_closeTag split: if_splits)

lemma matchScript_shorter: "matchScript s = Some r \<Longrightarrow> length r < length s"
  by (auto simp: matchScript_def split: if_splits dest!: scriptTail_shorter)

text \<open>
  \<open>replace\<close> with the flag \<open>g\<close> and the replacement \<open>''\<close>: a match is dropped and the
  search goes on behind it; where the expression does not match, the code unit is kept
  and the search goes on at the next one.
\<close>

function removeScripts :: "jsstring \<Rightarrow> jsstring" where
  "removeScripts [] = []"
| "removeScripts (c # cs) =
     (case matchScript (c # cs) of
        Some rest \<Rightarrow> removeScripts rest
      | None \<Rightarrow> c # removeScripts cs)"
  by pat_completeness auto
termination
  by (relation "measure length") (auto dest: matchScript_shorter)

definition sanitizeMessage :: "jsstring \<Rightarrow> jsstring" where
  "sanitizeMessage message = trim (stripAngles (removeScripts message))"

definition isValidMessage :: "jsstring \<Rightarrow> bool" where
  "isValidMessage message \<longleftrightarrow> message \<noteq> [] \<and> length message \<ge> 1 \<and> length message \<le> 500"


section \<open>Message rate limit\<close>

record activity =
  messageCount :: nat
  lastMessage :: int

definition MESSAGE_RATE_LIMIT :: nat where
  "MESSAGE_RATE_LIMIT = 10"

definition MESSAGE_WINDOW :: int where
  "MESSAGE_WINDOW = 60 * 1000"

text \<open>
  \<open>userActivity\<close> is a \<open>Map\<close> from usernames to activity objects: an association list in
  insertion order, where \<open>set\<close> of a new key appends and a change of an object changes
  the entry in place. \<open>now\<close> is the reading of \<open>Date.now()\<close>, in milliseconds. The
  result is the returned boolean and the new map.
\<close>

definition checkMessageRateLimit ::
  "int \<Rightarrow> jsstring \<Rightarrow> (jsstring \<times> activity) list \<Rightarrow> bool \<times> (jsstring \<times> activity) list" where
  "checkMessageRateLimit now name ua =
     (case map_of ua name of
        None \<Rightarrow> (True, AList.update name \<lparr>messageCount = 1, lastMessage = now\<rparr> ua)
      | Some a \<Rightarrow>
          if now - lastMessage a > MESSAGE_WINDOW
          then (True, AList.update name (a\<lparr>messageCount := 1, lastMessage := now\<rparr>) ua)
          else if messageCount a < MESSAGE_RATE_LIMIT
          then (True, AList.update name
                  (a\<lparr>messageCount := messageCount a + 1, lastMessage := now\<rparr>) ua)
          else (False, ua))"



section \<open>Recent messages\<close>

record messageData =
  m_username :: jsstring
  m_message :: jsstring
  m_timestamp :: int
  m_socketId :: nat

definition MAX_RECENT_MESSAGES :: nat where
  "MAX_RECENT_MESSAGES = 50"

text \<open>\<open>push\<close> appends at the end, \<open>shift\<close> removes the first element.\<close>

definition addRecentMessage :: "'a \<Rightarrow> 'a list \<Rightarrow> 'a list" where
  "addRecentMessage messageData recentMessages =
     (let pushed = recentMessages @ [messageData]
      in if length pushed > MAX_RECENT_MESSAGES then tl pushed else pushed)"

text \<open>Inserting a sequence of messages, first to last.\<close>

definition addAll :: "'a list \<Rightarrow> 'a list \<Rightarrow> 'a list" where
  "addAll ms recentMessages = foldl (\<lambda>buf m. addRecentMessage m buf) recentMessages ms"

section \<open>The server\<close>

text \<open>
  \<open>socket.id\<close> is an opaque string that the transport makes for each connection; the
  server only compares it, and a number stands for it.
\<close>

type_synonym sid = nat

datatype status = Idle | Active

text \<open>A value of \<open>activeUsers\<close>; \<open>status\<close> is absent until an idle or active signal.\<close>

record user =
  username :: jsstring
  joinTime :: int
  lastSeen :: int
  socketId :: sid
  status :: "status option"

text \<open>
  What the server sends. An emission goes to one socket (\<open>socket.emit\<close>), to the room
  \<open>main-chat\<close> (\<open>io.to('main-chat').emit\<close>) or to the room without the socket at hand
  (\<open>socket.to('main-chat').emit\<close>). \<open>Close\<close> is \<open>socket.disconnect(true)\<close> and
  \<open>Respond\<close> the answer to an HTTP request.
\<close>

datatype errmsg =
  InvalidUsername | UsernameTaken | JoinFailed | MustJoinFirst | InvalidMessage |
  TooFast | SendFailed | Banned

datatype payload =
  OnlineCount nat
| Error errmsg
| UserJoined jsstring nat int
| UserLeft jsstring nat int
| Message messageData
| UserTyping jsstring jsvalue

datatype audience = ToSocket sid | ToRoom | ToRoomExcept sid

datatype response =
  Unauthorized | UsernameRequired | BanDone jsstring | UnbanDone jsstring | Uncaught

fun statusCode :: "response \<Rightarrow> nat" where
  "statusCode Unauthorized = 401"
| "statusCode UsernameRequired = 400"
| "statusCode (BanDone name) = 200"
| "statusCode (UnbanDone name) = 200"
| "statusCode Uncaught = 500"

datatype action = Emit audience payload | Close sid | Respond response

text \<open>
  The state: the four collections of the server, the connected sockets
  (\<open>io.sockets.sockets\<close>) and the members of the room \<open>main-chat\<close>. \<open>activeUsers\<close> is a
  \<open>Map\<close>, an association list in insertion order. Every handler takes one reading of
  the clock, \<open>now\<close>, for the dates it makes.
\<close>

record server =
  activeUsers :: "(sid \<times> user) list"
  recentMessages :: "messageData list"
  bannedUsers :: "jsstring set"
  userActivity :: "(jsstring \<times> activity) list"
  sockets :: "sid set"
  mainChat :: "sid set"

definition init :: server where
  "init = \<lparr>activeUsers = [], recentMessages = [], bannedUsers = {}, userActivity = [],
           sockets = {}, mainChat = {}\<rparr>"

definition recipients :: "server \<Rightarrow> audience \<Rightarrow> sid set" where
  "recipients st a =
     (case a of ToSocket s \<Rightarrow> {s} | ToRoom \<Rightarrow> mainChat st | ToRoomExcept s \<Rightarrow> mainChat st - {s})"

definition connection :: "sid \<Rightarrow> server \<Rightarrow> server \<times> action list" where
  "connection s st =
     (st\<lparr>sockets := insert s (sockets st)\<rparr>,
      [Emit (ToSocket s) (OnlineCount (length (activeUsers st)))])"

text \<open>
  The \<open>join\<close> handler. An argument that is not a string has no \<open>replace\<close>: the
  TypeError is caught and answered.
\<close>

definition join ::
  "(jsstring \<Rightarrow> jsstring) \<Rightarrow> int \<Rightarrow> sid \<Rightarrow> jsvalue \<Rightarrow> server \<Rightarrow> server \<times> action list" where
  "join lc now s arg st =
     (case arg of
        JString raw \<Rightarrow>
          let sanitizedUsername = sanitizeUsername raw in
          if \<not> isValidUsername lc (bannedUsers st) sanitizedUsername
          then (st, [Emit (ToSocket s) (Error InvalidUsername)])
          else if find (\<lambda>u. lc (username u) = lc sanitizedUsername)
                    (map snd (activeUsers st)) \<noteq> None
          then (st, [Emit (ToSocket s) (Error UsernameTaken)])
          else
            let users = AList.update s
                  \<lparr>username = sanitizedUsername, joinTime = now, lastSeen = now,
                   socketId = s, status = None\<rparr> (activeUsers st)
            in (st\<lparr>activeUsers := users, mainChat := insert s (mainChat st)\<rparr>,
                Emit ToRoom (UserJoined sanitizedUsername (length users) now) #
                map (\<lambda>m. Emit (ToSocket s) (Message m)) (recentMessages st))
      | _ \<Rightarrow> (st, [Emit (ToSocket s) (Error JoinFailed)]))"

text \<open>
  The \<open>message\<close> handler. The argument is the value of \<open>data.message\<close>, \<open>None\<close> when
  \<open>data\<close> is \<open>null\<close> or \<open>undefined\<close> and the read itself raises.
\<close>

definition message :: "int \<Rightarrow> sid \<Rightarrow> jsvalue option \<Rightarrow> server \<Rightarrow> server \<times> action list" where
  "message now s arg st =
     (case map_of (activeUsers st) s of
        None \<Rightarrow> (st, [Emit (ToSocket s) (Error MustJoinFirst)])
      | Some u \<Rightarrow>
          (case arg of
             Some (JString raw) \<Rightarrow>
               let sanitizedMessage = sanitizeMessage raw in
               if \<not> isValidMessage sanitizedMessage
               then (st, [Emit (ToSocket s) (Error InvalidMessage)])
               else
                 let (ok, ua) = checkMessageRateLimit now (username u) (userActivity st) in
                 if \<not> ok
                 then (st\<lparr>userActivity := ua\<rparr>, [Emit (ToSocket s) (Error TooFast)])
                 else
                   let md = \<lparr>m_username = username u, m_message = sanitizedMessage,
                             m_timestamp = now, m_socketId = s\<rparr>
                   in (st\<lparr>activeUsers := AList.update s (u\<lparr>lastSeen := now\<rparr>) (activeUsers st),
                          recentMessages := addRecentMessage md (recentMessages st),
                          userActivity := ua\<rparr>,
                       [Emit ToRoom (Message md)])
           | _ \<Rightarrow> (st, [Emit (ToSocket s) (Error SendFailed)])))"

definition typing :: "sid \<Rightarrow> jsvalue option \<Rightarrow> server \<Rightarrow> server \<times> action list" where
  "typing s arg st =
     (case map_of (activeUsers st) s of
        None \<Rightarrow> (st, [])
      | Some u \<Rightarrow>
          (case arg of
             None \<Rightarrow> (st, [])
           | Some v \<Rightarrow> (st, [Emit (ToRoomExcept s) (UserTyping (username u) v)])))"

definition userIdle :: "sid \<Rightarrow> server \<Rightarrow> server \<times> action list" where
  "userIdle s st =
     (case map_of (activeUsers st) s of
        None \<Rightarrow> (st, [])
      | Some u \<Rightarrow>
          (st\<lparr>activeUsers := AList.update s (u\<lparr>status := Some Idle\<rparr>) (activeUsers st)\<rparr>, []))"

definition userActive :: "int \<Rightarrow> sid \<Rightarrow> server \<Rightarrow> server \<times> action list" where
  "userActive now s st =
     (case map_of (activeUsers st) s of
        None \<Rightarrow> (st, [])
      | Some u \<Rightarrow>
          (st\<lparr>activeUsers :=
                AList.update s (u\<lparr>status := Some Active, lastSeen := now\<rparr>) (activeUsers st)\<rparr>,
           []))"

text \<open>\<open>handleUserDisconnection\<close>, the handler of \<open>leave\<close> and of \<open>disconnect\<close>.\<close>

definition handleUserDisconnection :: "int \<Rightarrow> sid \<Rightarrow> server \<Rightarrow> server \<times> action list" where
  "handleUserDisconnection now s st =
     (case map_of (activeUsers st) s of
        None \<Rightarrow> (st, [])
      | Some u \<Rightarrow>
          let users = AList.delete s (activeUsers st);
              ua = (case map_of (userActivity st) (username u) of
                      None \<Rightarrow> userActivity st
                    | Some a \<Rightarrow>
                        if now - lastMessage a > 5 * 60 * 1000
                        then AList.delete (username u) (userActivity st)
                        else userActivity st)
          in (st\<lparr>activeUsers := users, userActivity := ua\<rparr>,
              [Emit (ToRoomExcept s) (UserLeft (username u) (length users) now)]))"

definition leave :: "int \<Rightarrow> sid \<Rightarrow> server \<Rightarrow> server \<times> action list" where
  "leave now s st = handleUserDisconnection now s st"

text \<open>
  The end of a transport: the socket leaves its rooms and the table of sockets, then its
  \<open>disconnect\<close> event runs the handler.
\<close>

definition disconnect :: "int \<Rightarrow> sid \<Rightarrow> server \<Rightarrow> server \<times> action list" where
  "disconnect now s st =
     handleUserDisconnection now s
       (st\<lparr>sockets := sockets st - {s}, mainChat := mainChat st - {s}\<rparr>)"

text \<open>
  The periodic cleanup. Each loop runs over the entries of a \<open>Map\<close> and deletes from it
  on the way: the first argument is what is left to visit, the second the map.
\<close>

fun cleanupUsers ::
  "int \<Rightarrow> (sid \<times> user) list \<Rightarrow> (sid \<times> user) list \<Rightarrow> (sid \<times> user) list \<times> action list" where
  "cleanupUsers now [] users = (users, [])"
| "cleanupUsers now ((s, u) # es) users =
     (if now - lastSeen u > 30 * 60 * 1000
      then
        let users' = AList.delete s users;
            (users'', as) = cleanupUsers now es users'
        in (users'', Emit ToRoom (UserLeft (username u) (length users') now) # as)
      else cleanupUsers now es users)"

fun cleanupActivity ::
  "int \<Rightarrow> (jsstring \<times> activity) list \<Rightarrow> (jsstring \<times> activity) list \<Rightarrow> (jsstring \<times> activity) list" where
  "cleanupActivity now [] ua = ua"
| "cleanupActivity now ((name, a) # es) ua =
     cleanupActivity now es
       (if now - lastMessage a > 60 * 60 * 1000 then AList.delete name ua else ua)"

definition cleanup :: "int \<Rightarrow> server \<Rightarrow> server \<times> action list" where
  "cleanup now st =
     (let (users, as) = cleanupUsers now (activeUsers st) (activeUsers st)
      in (st\<lparr>activeUsers := users,
             userActivity := cleanupActivity now (userActivity st) (userActivity st)\<rparr>, as))"

text \<open>
  The administrative endpoints. A request carries the properties \<open>username\<close> and
  \<open>adminKey\<close> of its body, \<open>undefined\<close> when absent; \<open>key\<close> is \<open>process.env.ADMIN_KEY\<close>,
  \<open>None\<close> when the variable is not set.
\<close>

record adminRequest =
  r_username :: jsvalue
  r_adminKey :: jsvalue

fun strictEq :: "jsvalue \<Rightarrow> jsstring option \<Rightarrow> bool" where
  "strictEq (JString a) (Some k) = (a = k)"
| "strictEq JUndefined None = True"
| "strictEq v k = False"

text \<open>
  The loop of the ban over the entries of \<open>activeUsers\<close>, up to its \<open>break\<close>.
  \<open>socket.disconnect(true)\<close> closes the transport, which runs \<open>disconnect\<close>.
\<close>

fun banDisconnect ::
  "(jsstring \<Rightarrow> jsstring) \<Rightarrow> int \<Rightarrow> jsstring \<Rightarrow> (sid \<times> user) list \<Rightarrow> server \<Rightarrow>
   server \<times> action list" where
  "banDisconnect lc now name [] st = (st, [])"
| "banDisconnect lc now name ((s, u) # es) st =
     (if lc (username u) = lc name
      then
        if s \<in> sockets st
        then
          let (st', as) = disconnect now s st
          in (st', Emit (ToSocket s) (Error Banned) # Close s # as)
        else (st, [])
      else banDisconnect lc now name es st)"

definition ban ::
  "(jsstring \<Rightarrow> jsstring) \<Rightarrow> jsstring option \<Rightarrow> int \<Rightarrow> adminRequest \<Rightarrow> server \<Rightarrow>
   server \<times> action list" where
  "ban lc key now req st =
     (if \<not> strictEq (r_adminKey req) key then (st, [Respond Unauthorized])
      else if \<not> truthy (r_username req) then (st, [Respond UsernameRequired])
      else
        case r_username req of
          JString name \<Rightarrow>
            let st1 = st\<lparr>bannedUsers := insert (lc name) (bannedUsers st)\<rparr>;
                (st2, as) = banDisconnect lc now name (activeUsers st1) st1
            in (st2, as @ [Respond (BanDone name)])
        | _ \<Rightarrow> (st, [Respond Uncaught]))"

definition unban ::
  "(jsstring \<Rightarrow> jsstring) \<Rightarrow> jsstring option \<Rightarrow> adminRequest \<Rightarrow> server \<Rightarrow>
   server \<times> action list" where
  "unban lc key req st =
     (if \<not> strictEq (r_adminKey req) key then (st, [Respond Unauthorized])
      else if \<not> truthy (r_username req) then (st, [Respond UsernameRequired])
      else
        case r_username req of
          JString name \<Rightarrow>
            (st\<lparr>bannedUsers := bannedUsers st - {lc name}\<rparr>, [Respond (UnbanDone name)])
        | _ \<Rightarrow> (st, [Respond Uncaught]))"

text \<open>
  The events that change the state or emit, each at a reading of the clock. The two
  reading endpoints, \<open>/api/health\<close> and \<open>/api/stats\<close>, change nothing and are left out.
  \<open>run\<close> takes any sequence of events, among them all that the transport can deliver.
\<close>

datatype event =
  Connection sid
| Join sid jsvalue
| MessageEv sid "jsvalue option"
| Typing sid "jsvalue option"
| UserIdle sid
| UserActive sid
| Leave sid
| Disconnect sid
| Cleanup
| Ban adminRequest
| Unban adminRequest

fun step ::
  "(jsstring \<Rightarrow> jsstring) \<Rightarrow> jsstring option \<Rightarrow> server \<Rightarrow> int \<times> event \<Rightarrow> server \<times> action list" where
  "step lc key st (now, Connection s) = connection s st"
| "step lc key st (now, Join s v) = join lc now s v st"
| "step lc key st (now, MessageEv s v) = message now s v st"
| "step lc key st (now, Typing s v) = typing s v st"
| "step lc key st (now, UserIdle s) = userIdle s st"
| "step lc key st (now, UserActive s) = userActive now s st"
| "step lc key st (now, Leave s) = leave now s st"
| "step lc key st (now, Disconnect s) = disconnect now s st"
| "step lc key st (now, Cleanup) = cleanup now st"
| "step lc key st (now, Ban req) = ban lc key now req st"
| "step lc key st (now, Unban req) = unban lc key req st"

definition run ::
  "(jsstring \<Rightarrow> jsstring) \<Rightarrow> jsstring option \<Rightarrow> server \<Rightarrow> (int \<times> event) list \<Rightarrow> server" where
  "run lc key st es = foldl (\<lambda>st e. fst (step lc key st e)) st es"

text \<open>
  The shape of \<open>activeUsers\<close>: a \<open>Map\<close> holds a key once, and no two entries hold
  usernames with the same lower-case form.
\<close>

definition lowerName :: "(jsstring \<Rightarrow> jsstring) \<Rightarrow> sid \<times> user \<Rightarrow> jsstring" where
  "lowerName lc p = lc (username (snd p))"

definition registryOk :: "(jsstring \<Rightarrow> jsstring) \<Rightarrow> (sid \<times> user) list \<Rightarrow> bool" where
  "registryOk lc users \<longleftrightarrow> distinct (map fst users) \<and> distinct (map (lowerName lc) users)"

text \<open>
  The character set of the specification, \<open>[A-Za-z0-9_\- ]\<close>: of the white space, the
  space alone.
\<close>

definition specUsernameChar :: "codeunit \<Rightarrow> bool" where
  "specUsernameChar c \<longleftrightarrow> isLower c \<or> isUpper c \<or> isDigit c \<or> c = 95 \<or> c = 45 \<or> c = 32"

text \<open>
  A state for examples: the sockets 7 and 8 have connected and joined as \<open>alice\<close>, at
  time 1, and \<open>bob\<close>, at time 60000.
\<close>

definition twoJoined :: server where
  "twoJoined =
     \<lparr>activeUsers =
        [(7, \<lparr>username = js ''alice'', joinTime = 1, lastSeen = 1, socketId = 7, status = None\<rparr>),
         (8, \<lparr>username = js ''bob'', joinTime = 60000, lastSeen = 60000, socketId = 8,
              status = None\<rparr>)],
      recentMessages = [], bannedUsers = {}, userActivity = [],
      sockets = {7, 8}, mainChat = {7, 8}\<rparr>"

section \<open>The buffer is a bounded queue\<close>

lemma addRecentMessage_length:
  "length buf \<le> MAX_RECENT_MESSAGES \<Longrightarrow> length (addRecentMessage m buf) \<le> MAX_RECENT_MESSAGES"
  by (simp add: addRecentMessage_def Let_def)

lemma addRecentMessage_drop:
  "length buf \<le> MAX_RECENT_MESSAGES \<Longrightarrow>
   addRecentMessage m buf = drop (length buf + 1 - MAX_RECENT_MESSAGES) (buf @ [m])"
proof (cases "length buf = MAX_RECENT_MESSAGES")
  case True
  then have "buf \<noteq> []" by (auto simp: MAX_RECENT_MESSAGES_def)
  then show ?thesis using True
    by (cases buf) (simp_all add: addRecentMessage_def Let_def MAX_RECENT_MESSAGES_def)
next
  case False
  assume "length buf \<le> MAX_RECENT_MESSAGES"
  with False show ?thesis by (simp add: addRecentMessage_def Let_def)
qed

lemma addAll_drop:
  "length buf \<le> MAX_RECENT_MESSAGES \<Longrightarrow>
   addAll ms buf = drop (length buf + length ms - MAX_RECENT_MESSAGES) (buf @ ms)"
proof (induction ms arbitrary: buf)
  case Nil
  then show ?case by (simp add: addAll_def)
next
  case (Cons m ms)
  let ?b = "addRecentMessage m buf"
  let ?k = "length buf + 1 - MAX_RECENT_MESSAGES"
  have len: "length ?b \<le> MAX_RECENT_MESSAGES"
    using Cons.prems by (rule addRecentMessage_length)
  have step: "addAll (m # ms) buf = addAll ms ?b"
    by (simp add: addAll_def)
  have b: "?b = drop ?k (buf @ [m])"
    using Cons.prems by (rule addRecentMessage_drop)
  have lb: "length ?b = length buf + 1 - ?k"
    by (simp add: b)
  have app: "?b @ ms = drop ?k (buf @ m # ms)"
    using Cons.prems by (simp add: b MAX_RECENT_MESSAGES_def)
  have "addAll ms ?b = drop (length ?b + length ms - MAX_RECENT_MESSAGES) (?b @ ms)"
    using len by (rule Cons.IH)
  also have "\<dots> = drop (length ?b + length ms - MAX_RECENT_MESSAGES + ?k) (buf @ m # ms)"
    by (simp only: app drop_drop)
  also have "length ?b + length ms - MAX_RECENT_MESSAGES + ?k =
             length buf + length (m # ms) - MAX_RECENT_MESSAGES"
    using Cons.prems lb by simp
  finally show ?case using step by simp
qed

lemma handleUserDisconnection_recent:
  "recentMessages (fst (handleUserDisconnection now s st)) = recentMessages st"
  by (simp add: handleUserDisconnection_def Let_def split: option.splits)

lemma disconnect_recent: "recentMessages (fst (disconnect now s st)) = recentMessages st"
  by (simp add: disconnect_def handleUserDisconnection_recent)

lemma banDisconnect_recent:
  "recentMessages (fst (banDisconnect lc now name es st)) = recentMessages st"
  by (induction es) (auto simp: disconnect_recent split_beta)

lemma cleanup_recent: "recentMessages (fst (cleanup now st)) = recentMessages st"
  by (simp add: cleanup_def split_beta)

lemma ban_recent: "recentMessages (fst (ban lc key now req st)) = recentMessages st"
proof -
  have "recentMessages (fst (banDisconnect lc now name es (st\<lparr>bannedUsers := b\<rparr>))) = recentMessages st"
    for name es b
    by (simp add: banDisconnect_recent)
  then show ?thesis
    by (simp add: ban_def Let_def split_beta split: jsvalue.splits)
qed

lemma message_recent_bound:
  "length (recentMessages st) \<le> MAX_RECENT_MESSAGES \<Longrightarrow>
   length (recentMessages (fst (message now s v st))) \<le> MAX_RECENT_MESSAGES"
  by (simp add: message_def Let_def split_beta addRecentMessage_length split: option.splits jsvalue.splits)

lemma step_recent_bound:
  "length (recentMessages st) \<le> MAX_RECENT_MESSAGES \<Longrightarrow>
   length (recentMessages (fst (step lc key st e))) \<le> MAX_RECENT_MESSAGES"
proof (cases e)
  case (Pair now ev)
  assume b: "length (recentMessages st) \<le> MAX_RECENT_MESSAGES"
  show ?thesis
  proof (cases ev)
    case (MessageEv s v)
    with Pair b show ?thesis by (simp add: message_recent_bound)
  next
    case (Join s v)
    with Pair b show ?thesis
      by (auto simp: join_def Let_def split: jsvalue.splits)
  next
    case (Ban req)
    with Pair b show ?thesis by (simp add: ban_recent)
  next
    case (Unban req)
    with Pair b show ?thesis by (auto simp: unban_def split: jsvalue.splits)
  qed (use Pair b in \<open>auto simp: connection_def typing_def userIdle_def userActive_def leave_def
         handleUserDisconnection_recent disconnect_recent cleanup_recent
         split: option.splits\<close>)
qed

lemma run_recent_bound:
  "length (recentMessages st) \<le> MAX_RECENT_MESSAGES \<Longrightarrow>
   length (recentMessages (run lc key st es)) \<le> MAX_RECENT_MESSAGES"
proof (induction es arbitrary: st)
  case Nil
  then show ?case by (simp add: run_def)
next
  case (Cons e es)
  have "run lc key st (e # es) = run lc key (fst (step lc key st e)) es"
    by (simp add: run_def)
  with Cons show ?case by (simp add: step_recent_bound)
qed


text \<open>
  C5. The buffer of recent messages is a bounded queue of capacity 50: an insertion
  appends at the tail and, once the capacity is exceeded, removes the head. From the
  empty buffer, 55 insertions leave exactly the last 50 messages in the order of their
  insertion, and in no state the server reaches does the buffer hold more than 50.
\<close>

theorem recent_buffer_bounded_fifo:
  "MAX_RECENT_MESSAGES = 50 \<and>
   (length buf < 50 \<longrightarrow> addRecentMessage m buf = buf @ [m]) \<and>
   (length buf = 50 \<longrightarrow> addRecentMessage m buf = tl buf @ [m]) \<and>
   (length ms = 55 \<longrightarrow> length (addAll ms []) = 50 \<and> addAll ms [] = drop 5 ms) \<and>
   addAll ms [] = drop (length ms - 50) ms \<and>
   length (addAll ms []) \<le> 50 \<and>
   length (recentMessages (run lc key init es)) \<le> 50"
proof -
  have cap: "MAX_RECENT_MESSAGES = 50"
    by (simp add: MAX_RECENT_MESSAGES_def)
  have small: "length buf < 50 \<longrightarrow> addRecentMessage m buf = buf @ [m]"
    by (simp add: addRecentMessage_def Let_def cap)
  have full: "length buf = 50 \<longrightarrow> addRecentMessage m buf = tl buf @ [m]"
    by (cases buf) (simp_all add: addRecentMessage_def Let_def cap)
  have all: "addAll ms [] = drop (length ms - 50) ms"
    using addAll_drop [of "[]" ms] by (simp add: cap)
  have "length (recentMessages init) \<le> MAX_RECENT_MESSAGES"
    by (simp add: init_def)
  then have "length (recentMessages (run lc key init es)) \<le> MAX_RECENT_MESSAGES"
    by (rule run_recent_bound)
  then have bound: "length (recentMessages (run lc key init es)) \<le> 50"
    by (simp add: MAX_RECENT_MESSAGES_def)
  show ?thesis
    using small full all bound by (simp add: MAX_RECENT_MESSAGES_def)
qed

theorem recent_buffer_bounded_fifo_witness:
  "length [1, 2, 3::nat] < 50 \<and> addRecentMessage (7::nat) [1, 2, 3] = [1, 2, 3, 7] \<and>
   length (replicate 50 (0::nat)) = 50 \<and>
   addRecentMessage 1 (replicate 50 (0::nat)) = replicate 49 0 @ [1] \<and>
   length ([0..<55]) = 55 \<and> addAll [0..<55] [] = [5..<55]"
proof -
  note small = recent_buffer_bounded_fifo
    [where buf = "[1, 2, 3::nat]" and m = 7 and ms = "[0..<55]"
       and lc = asciiToLowerCase and key = None and es = "[]"]
  note full = recent_buffer_bounded_fifo
    [where buf = "replicate 50 (0::nat)" and m = 1 and ms = "[0..<55]"
       and lc = asciiToLowerCase and key = None and es = "[]"]
  have a: "length [1, 2, 3::nat] < 50" by simp
  have b: "length (replicate 50 (0::nat)) = 50" by simp
  have c: "length [0..<55] = 55" by simp
  have t: "tl (replicate 50 (0::nat)) = replicate 49 0"
    by (simp add: numeral_eq_Suc)
  have d: "drop 5 [0..<55] = [5..<55]" by (simp only: drop_upt) simp
  from a small have 1: "addRecentMessage (7::nat) [1, 2, 3] = [1, 2, 3, 7]"
    by (elim conjE) simp
  from b full have 2: "addRecentMessage 1 (replicate 50 (0::nat)) = tl (replicate 50 0) @ [1]"
    by (elim conjE) (erule (1) impE)
  from c full have 3: "addAll [0..<55] [] = drop 5 [0..<55]"
    by (elim conjE) (erule (1) impE, erule conjunct2)
  show ?thesis using a b c 1 2 3 by (simp only: t d) 
qed

section \<open>The message rate limit\<close>






section \<open>The shape of the registry\<close>

lemma delete_filter: "AList.delete k xs = filter (\<lambda>p. fst p \<noteq> k) xs"
  by (induction xs) auto

lemma registryOk_delete: "registryOk lc xs \<Longrightarrow> registryOk lc (AList.delete k xs)"
  by (simp add: registryOk_def delete_filter distinct_map_filter)

lemma registryOk_filter: "registryOk lc xs \<Longrightarrow> registryOk lc (filter P xs)"
  by (simp add: registryOk_def distinct_map_filter)

lemma set_update_subset: "set (AList.update k v xs) \<subseteq> insert (k, v) (set xs)"
  by (induction xs) auto

lemma distinct_map_update_new:
  "distinct (map g xs) \<Longrightarrow> g (k, v) \<notin> g ` set xs \<Longrightarrow> distinct (map g (AList.update k v xs))"
proof (induction xs)
  case Nil
  then show ?case by simp
next
  case (Cons p ps)
  show ?case
  proof (cases "fst p = k")
    case True
    with Cons.prems show ?thesis by simp
  next
    case False
    have "g p \<notin> g ` set (AList.update k v ps)"
    proof
      assume "g p \<in> g ` set (AList.update k v ps)"
      then obtain q where q: "q \<in> set (AList.update k v ps)" "g p = g q" by auto
      from q(1) set_update_subset [of k v ps] have "q = (k, v) \<or> q \<in> set ps" by auto
      with q(2) Cons.prems show False by auto
    qed
    with False Cons show ?thesis by simp
  qed
qed

lemma map_update_same:
  "map_of xs k = Some old \<Longrightarrow> g (k, v) = g (k, old) \<Longrightarrow> map g (AList.update k v xs) = map g xs"
  by (induction xs) (auto split: if_splits)

lemma registryOk_update_same:
  assumes "registryOk lc xs" "map_of xs k = Some old" "username v = username old"
  shows "registryOk lc (AList.update k v xs)"
proof -
  have "map (lowerName lc) (AList.update k v xs) = map (lowerName lc) xs"
    using assms(2,3) by (intro map_update_same [where old = old]) (simp_all add: lowerName_def)
  moreover have "map fst (AList.update k v xs) = map fst xs"
    using assms(2) by (intro map_update_same [where old = old]) simp_all
  ultimately show ?thesis using assms(1) by (simp add: registryOk_def)
qed

lemma registryOk_update_new:
  assumes "registryOk lc xs" "\<forall>p \<in> set xs. lc (username (snd p)) \<noteq> lc (username v)"
  shows "registryOk lc (AList.update k v xs)"
proof -
  have "lowerName lc (k, v) \<notin> lowerName lc ` set xs"
    using assms(2) by (auto simp: lowerName_def)
  with assms(1) have "distinct (map (lowerName lc) (AList.update k v xs))"
    by (simp add: registryOk_def distinct_map_update_new)
  moreover have "distinct (map fst (AList.update k v xs))"
    using assms(1) by (simp add: registryOk_def AList.distinct_update)
  ultimately show ?thesis by (simp add: registryOk_def)
qed

lemma find_None_names:
  "find (\<lambda>u. lc (username u) = n) (map snd xs) = None \<longleftrightarrow>
   (\<forall>p \<in> set xs. lc (username (snd p)) \<noteq> n)"
  by (auto simp: find_None_iff)

lemma join_registryOk:
  "registryOk lc (activeUsers st) \<Longrightarrow> registryOk lc (activeUsers (fst (join lc now s v st)))"
  by (auto simp: join_def Let_def find_None_names intro!: registryOk_update_new
           split: jsvalue.splits)

lemma message_registryOk:
  "registryOk lc (activeUsers st) \<Longrightarrow> registryOk lc (activeUsers (fst (message now s v st)))"
  by (auto simp: message_def Let_def split_beta intro!: registryOk_update_same
           split: option.splits jsvalue.splits)

lemma userIdle_registryOk:
  "registryOk lc (activeUsers st) \<Longrightarrow> registryOk lc (activeUsers (fst (userIdle s st)))"
  by (auto simp: userIdle_def intro!: registryOk_update_same split: option.splits)

lemma userActive_registryOk:
  "registryOk lc (activeUsers st) \<Longrightarrow> registryOk lc (activeUsers (fst (userActive now s st)))"
  by (auto simp: userActive_def intro!: registryOk_update_same split: option.splits)

lemma handleUserDisconnection_users:
  "activeUsers (fst (handleUserDisconnection now s st)) = AList.delete s (activeUsers st)"
proof (cases "map_of (activeUsers st) s")
  case None
  then have "\<forall>p \<in> set (activeUsers st). fst p \<noteq> s"
    by (auto simp: map_of_eq_None_iff)
  then have "filter (\<lambda>p. fst p \<noteq> s) (activeUsers st) = activeUsers st"
    by (simp add: filter_id_conv)
  with None show ?thesis by (simp add: handleUserDisconnection_def delete_filter)
next
  case (Some u)
  then show ?thesis by (simp add: handleUserDisconnection_def Let_def)
qed

lemma disconnect_users:
  "activeUsers (fst (disconnect now s st)) = AList.delete s (activeUsers st)"
  by (simp add: disconnect_def handleUserDisconnection_users)

lemma banDisconnect_users:
  "\<exists>P. activeUsers (fst (banDisconnect lc now name es st)) = filter P (activeUsers st)"
proof (induction es)
  case Nil
  have "activeUsers st = filter (\<lambda>p. True) (activeUsers st)" by simp
  then show ?case by (simp only: banDisconnect.simps fst_conv) (rule exI)
next
  case (Cons e es)
  obtain s u where e: "e = (s, u)" by (cases e)
  have id: "activeUsers st = filter (\<lambda>p. True) (activeUsers st)" by simp
  show ?case
  proof (cases "lc (username u) = lc name")
    case False
    with Cons e show ?thesis by simp
  next
    case True
    show ?thesis
    proof (cases "s \<in> sockets st")
      case False
      with True e show ?thesis using id by (auto intro: exI [of _ "\<lambda>p. True"])
    next
      case s: True
      have "activeUsers (fst (banDisconnect lc now name (e # es) st)) =
            filter (\<lambda>p. fst p \<noteq> s) (activeUsers st)"
        using True s e by (simp add: split_beta disconnect_users delete_filter)
      then show ?thesis by (rule exI [of _ "\<lambda>p. fst p \<noteq> s"])
    qed
  qed
qed

lemma cleanupUsers_filter:
  "fst (cleanupUsers now es users) =
   filter (\<lambda>p. fst p \<notin> fst ` {e \<in> set es. now - lastSeen (snd e) > 30 * 60 * 1000}) users"
proof (induction es arbitrary: users)
  case Nil
  then show ?case by simp
next
  case (Cons e es)
  obtain s u where e: "e = (s, u)" by (cases e)
  show ?case
  proof (cases "now - lastSeen u > 30 * 60 * 1000")
    case True
    have "fst (cleanupUsers now (e # es) users) = fst (cleanupUsers now es (AList.delete s users))"
      using True e by (simp add: split_beta Let_def)
    also have "\<dots> = filter (\<lambda>p. fst p \<notin> fst ` {e \<in> set es. now - lastSeen (snd e) > 30 * 60 * 1000})
        (filter (\<lambda>p. fst p \<noteq> s) users)"
      by (simp add: Cons.IH delete_filter)
    also have "\<dots> = filter (\<lambda>p. fst p \<notin> fst ` {e' \<in> set (e # es). now - lastSeen (snd e') > 30 * 60 * 1000}) users"
    proof -
      have "(\<lambda>p. fst p \<noteq> s \<and> fst p \<notin> fst ` {e \<in> set es. now - lastSeen (snd e) > 30 * 60 * 1000}) =
            (\<lambda>p. fst p \<notin> fst ` {e' \<in> set (e # es). now - lastSeen (snd e') > 30 * 60 * 1000})"
        using True e by (intro ext) force
      then show ?thesis by (simp only: filter_filter) (erule arg_cong)
    qed
    finally show ?thesis .
  next
    case False
    have "{e' \<in> set (e # es). now - lastSeen (snd e') > 30 * 60 * 1000} =
          {e' \<in> set es. now - lastSeen (snd e') > 30 * 60 * 1000}"
      using False e by auto
    with False e show ?thesis by (simp add: Cons.IH)
  qed
qed

lemma cleanup_users:
  "activeUsers (fst (cleanup now st)) =
   filter (\<lambda>p. fst p \<notin> fst ` {e \<in> set (activeUsers st). now - lastSeen (snd e) > 30 * 60 * 1000})
     (activeUsers st)"
  by (simp add: cleanup_def split_beta cleanupUsers_filter)

lemma ban_registryOk:
  "registryOk lc (activeUsers st) \<Longrightarrow> registryOk lc (activeUsers (fst (ban lc key now req st)))"
proof -
  assume ok: "registryOk lc (activeUsers st)"
  have "registryOk lc (activeUsers (fst (banDisconnect lc now name
          (activeUsers st) (st\<lparr>bannedUsers := b\<rparr>))))" for name b
  proof -
    obtain P where "activeUsers (fst (banDisconnect lc now name
          (activeUsers st) (st\<lparr>bannedUsers := b\<rparr>))) = filter P (activeUsers (st\<lparr>bannedUsers := b\<rparr>))"
      using banDisconnect_users by blast
    with ok show ?thesis by (simp add: registryOk_filter)
  qed
  with ok show ?thesis
    by (simp add: ban_def Let_def split_beta split: jsvalue.splits)
qed

lemma step_registryOk:
  "registryOk lc (activeUsers st) \<Longrightarrow> registryOk lc (activeUsers (fst (step lc key st e)))"
proof (cases e)
  case (Pair now ev)
  assume ok: "registryOk lc (activeUsers st)"
  show ?thesis
  proof (cases ev)
    case (Join s v)
    with Pair ok show ?thesis by (simp add: join_registryOk)
  next
    case (MessageEv s v)
    with Pair ok show ?thesis by (simp add: message_registryOk)
  next
    case (UserIdle s)
    with Pair ok show ?thesis by (simp add: userIdle_registryOk)
  next
    case (UserActive s)
    with Pair ok show ?thesis by (simp add: userActive_registryOk)
  next
    case (Leave s)
    with Pair ok show ?thesis
      by (simp add: leave_def handleUserDisconnection_users registryOk_delete)
  next
    case (Disconnect s)
    with Pair ok show ?thesis by (simp add: disconnect_users registryOk_delete)
  next
    case Cleanup
    with Pair ok show ?thesis by (simp add: cleanup_users registryOk_filter)
  next
    case (Ban req)
    with Pair ok show ?thesis by (simp add: ban_registryOk)
  next
    case (Unban req)
    with Pair ok show ?thesis by (auto simp: unban_def split: jsvalue.splits)
  next
    case (Connection s)
    with Pair ok show ?thesis by (simp add: connection_def)
  next
    case (Typing s v)
    with Pair ok show ?thesis by (auto simp: typing_def split: option.splits)
  qed
qed

lemma run_Cons: "run lc key st (e # es) = run lc key (fst (step lc key st e)) es"
  by (simp add: run_def)

lemma run_registryOk:
  "registryOk lc (activeUsers st) \<Longrightarrow> registryOk lc (activeUsers (run lc key st es))"
proof (induction es arbitrary: st)
  case Nil
  then show ?case by (simp add: run_def)
next
  case (Cons e es)
  then show ?case by (simp add: run_Cons step_registryOk)
qed

lemma init_registryOk: "registryOk lc (activeUsers init)"
  by (simp add: init_def registryOk_def)

section \<open>Usernames in the registry\<close>

lemmas string_defs = js_def trim_def stripAngles_def LT_def GT_def isWhiteSpace_def
  isUpper_def isLower_def isDigit_def asciiToLowerCase_def

lemmas username_defs = sanitizeUsername_def isValidUsername_def usernameChar_def

lemma join_rejected:
  assumes "map_of (activeUsers st) s1 = Some u1"
    and "lc (sanitizeUsername raw) = lc (username u1)"
  shows "join lc now s2 (JString raw) st =
    (st, [Emit (ToSocket s2) (Error
       (if isValidUsername lc (bannedUsers st) (sanitizeUsername raw)
        then UsernameTaken else InvalidUsername))])"
proof -
  have "(s1, u1) \<in> set (activeUsers st)"
    using assms(1) by (rule map_of_SomeD)
  then have "\<not> (\<forall>p \<in> set (activeUsers st).
      lc (username (snd p)) \<noteq> lc (sanitizeUsername raw))"
    using assms(2) by force
  then have "find (\<lambda>u. lc (username u) = lc (sanitizeUsername raw))
      (map snd (activeUsers st)) \<noteq> None"
    by (simp add: find_None_names)
  then show ?thesis by (simp add: join_def Let_def)
qed

text \<open>
  C2. In every state the server reaches, no two connections of the registry hold
  usernames that are equal when compared in lower case. In particular a join with a name
  whose lower-case form is that of a name already held is rejected: the state stays as it
  is, so the holder stays joined, and the one emission is an error to the requesting
  socket.
\<close>

theorem usernames_unique:
  "(\<forall>s1 u1 s2 u2.
      (s1, u1) \<in> set (activeUsers (run lc key init es)) \<and>
      (s2, u2) \<in> set (activeUsers (run lc key init es)) \<and> s1 \<noteq> s2 \<longrightarrow>
      lc (username u1) \<noteq> lc (username u2)) \<and>
   (map_of (activeUsers st) s1 = Some u1 \<and> lc (sanitizeUsername raw) = lc (username u1) \<longrightarrow>
      join lc now s2 (JString raw) st =
        (st, [Emit (ToSocket s2) (Error
           (if isValidUsername lc (bannedUsers st) (sanitizeUsername raw)
            then UsernameTaken else InvalidUsername))]))"
proof -
  have ok: "registryOk lc (activeUsers (run lc key init es))"
    using init_registryOk by (rule run_registryOk)
  have "lc (username u1) \<noteq> lc (username u2)"
    if "(s1, u1) \<in> set (activeUsers (run lc key init es))"
      "(s2, u2) \<in> set (activeUsers (run lc key init es))" "s1 \<noteq> s2"
    for s1 u1 s2 u2
  proof
    assume eq: "lc (username u1) = lc (username u2)"
    have "inj_on (lowerName lc) (set (activeUsers (run lc key init es)))"
      using ok by (simp add: registryOk_def distinct_map)
    moreover have "lowerName lc (s1, u1) = lowerName lc (s2, u2)"
      using eq by (simp add: lowerName_def)
    ultimately have "(s1, u1) = (s2, u2)"
      using that(1,2) by (rule inj_onD)
    with that(3) show False by simp
  qed
  then show ?thesis using join_rejected by blast
qed


lemmas eval_defs = run_def init_def join_def Let_def username_defs string_defs

theorem usernames_unique_witness:
  "(7, \<lparr>username = js ''Alice'', joinTime = 0, lastSeen = 0, socketId = 7, status = None\<rparr>)
     \<in> set (activeUsers (run asciiToLowerCase None init
           [(0, Join 7 (JString (js ''Alice''))), (1, Join 8 (JString (js ''Bob'')))])) \<and>
   (8, \<lparr>username = js ''Bob'', joinTime = 1, lastSeen = 1, socketId = 8, status = None\<rparr>)
     \<in> set (activeUsers (run asciiToLowerCase None init
           [(0, Join 7 (JString (js ''Alice''))), (1, Join 8 (JString (js ''Bob'')))])) \<and>
   asciiToLowerCase (js ''Alice'') \<noteq> asciiToLowerCase (js ''Bob'') \<and>
   map_of (activeUsers (run asciiToLowerCase None init [(0, Join 7 (JString (js ''Alice'')))])) 7 =
     Some \<lparr>username = js ''Alice'', joinTime = 0, lastSeen = 0, socketId = 7, status = None\<rparr> \<and>
   asciiToLowerCase (sanitizeUsername (js '' ALICE '')) = asciiToLowerCase (js ''Alice'') \<and>
   join asciiToLowerCase 1 8 (JString (js '' ALICE ''))
       (run asciiToLowerCase None init [(0, Join 7 (JString (js ''Alice'')))]) =
     (run asciiToLowerCase None init [(0, Join 7 (JString (js ''Alice'')))],
      [Emit (ToSocket 8) (Error UsernameTaken)])"
proof -
  let ?alice = "\<lparr>username = js ''Alice'', joinTime = 0, lastSeen = 0, socketId = 7, status = None\<rparr>"
  let ?bob = "\<lparr>username = js ''Bob'', joinTime = 1, lastSeen = 1, socketId = 8, status = None\<rparr>"
  let ?two = "run asciiToLowerCase None init
           [(0, Join 7 (JString (js ''Alice''))), (1, Join 8 (JString (js ''Bob'')))]"
  let ?one = "run asciiToLowerCase None init [(0, Join 7 (JString (js ''Alice'')))]"
  have two: "activeUsers ?two = [(7, ?alice), (8, ?bob)]"
    by (simp add: eval_defs)
  have one: "activeUsers ?one = [(7, ?alice)]" "bannedUsers ?one = {}"
    by (simp_all add: eval_defs)
  have a: "(7, ?alice) \<in> set (activeUsers ?two)" and b: "(8, ?bob) \<in> set (activeUsers ?two)"
    by (simp_all add: two)
  have c: "map_of (activeUsers ?one) 7 = Some ?alice"
    by (simp add: one)
  have d: "asciiToLowerCase (sanitizeUsername (js '' ALICE '')) = asciiToLowerCase (username ?alice)"
    by (simp add: username_defs string_defs)
  have v: "isValidUsername asciiToLowerCase (bannedUsers ?one) (sanitizeUsername (js '' ALICE ''))"
    unfolding one by (simp add: username_defs string_defs)
  note T = usernames_unique [where lc = asciiToLowerCase and key = None
      and es = "[(0, Join 7 (JString (js ''Alice''))), (1, Join 8 (JString (js ''Bob'')))]"
      and st = ?one and ?s1.0 = 7 and ?u1.0 = ?alice and raw = "js '' ALICE ''" and now = 1
      and ?s2.0 = 8]
  from T a b have e: "asciiToLowerCase (username ?alice) \<noteq> asciiToLowerCase (username ?bob)"
    by (elim conjE allE [of _ 7] allE [of _ ?alice] allE [of _ 8] allE [of _ ?bob]) simp
  from T c d v have f: "join asciiToLowerCase 1 8 (JString (js '' ALICE '')) ?one =
     (?one, [Emit (ToSocket 8) (Error UsernameTaken)])"
    by (elim conjE) simp
  show ?thesis using a b c d e f by simp
qed

text \<open>
  C3, as stated, fails. A connection that has joined as \<open>alice\<close> and sends a second join
  with the free name \<open>bob\<close> is bound to \<open>bob\<close> from then on: the handler has no check
  that the socket is already in the registry and \<open>activeUsers.set\<close> overwrites its entry.
\<close>

theorem rejoin_counterexample:
  "map_of (activeUsers (run asciiToLowerCase None init
      [(0, Join 7 (JString (js ''alice'')))])) 7 =
     Some \<lparr>username = js ''alice'', joinTime = 0, lastSeen = 0, socketId = 7, status = None\<rparr> \<and>
   map_of (activeUsers (run asciiToLowerCase None init
      [(0, Join 7 (JString (js ''alice''))), (5, Join 7 (JString (js ''bob'')))])) 7 =
     Some \<lparr>username = js ''bob'', joinTime = 5, lastSeen = 5, socketId = 7, status = None\<rparr>"
  by (simp add: eval_defs)

text \<open>
  C3, amended. In every state the server reaches, a connection has at most one entry, and
  so one username, in the registry. A join on a connection that has already joined keeps
  the keys of the registry as they are; it leaves the whole state unchanged when its
  argument is not a string or the sanitized name is invalid or held, in lower case, by an
  entry of the registry (the connection's own included); otherwise it binds the
  connection to the sanitized new name.
\<close>

theorem join_on_joined_connection:
  "distinct (map fst (activeUsers (run lc key init es))) \<and>
   (map_of (activeUsers st) s = Some u \<longrightarrow>
      map fst (activeUsers (fst (join lc now s v st))) = map fst (activeUsers st) \<and>
      ((\<forall>raw. v \<noteq> JString raw) \<longrightarrow> fst (join lc now s v st) = st) \<and>
      (\<forall>raw. v = JString raw \<longrightarrow>
         (if isValidUsername lc (bannedUsers st) (sanitizeUsername raw) \<and>
             (\<forall>p \<in> set (activeUsers st). lc (username (snd p)) \<noteq> lc (sanitizeUsername raw))
          then map_of (activeUsers (fst (join lc now s v st))) s =
                 Some \<lparr>username = sanitizeUsername raw, joinTime = now, lastSeen = now,
                       socketId = s, status = None\<rparr>
          else fst (join lc now s v st) = st)))"
proof -
  have ok: "registryOk lc (activeUsers (run lc key init es))"
    using init_registryOk by (rule run_registryOk)
  then have keys: "distinct (map fst (activeUsers (run lc key init es)))"
    by (simp add: registryOk_def)
  have joined: "map fst (activeUsers (fst (join lc now s v st))) = map fst (activeUsers st) \<and>
      ((\<forall>raw. v \<noteq> JString raw) \<longrightarrow> fst (join lc now s v st) = st) \<and>
      (\<forall>raw. v = JString raw \<longrightarrow>
         (if isValidUsername lc (bannedUsers st) (sanitizeUsername raw) \<and>
             (\<forall>p \<in> set (activeUsers st). lc (username (snd p)) \<noteq> lc (sanitizeUsername raw))
          then map_of (activeUsers (fst (join lc now s v st))) s =
                 Some \<lparr>username = sanitizeUsername raw, joinTime = now, lastSeen = now,
                       socketId = s, status = None\<rparr>
          else fst (join lc now s v st) = st))"
    if u: "map_of (activeUsers st) s = Some u"
  proof -
    have "s \<in> set (map fst (activeUsers st))"
      using u by (metis map_of_eq_None_iff option.distinct(1) set_map)
    then have same: "map fst (AList.update s w (activeUsers st)) = map fst (activeUsers st)" for w
      by (simp add: AList.update_keys)
    show ?thesis
      by (cases v)
        (simp_all add: join_def Let_def same find_None_names AList.update_conv')
  qed
  from keys joined show ?thesis by blast
qed


theorem join_on_joined_connection_witness:
  "map_of (activeUsers (run asciiToLowerCase None init [(0, Join 7 (JString (js ''alice'')))])) 7 =
     Some \<lparr>username = js ''alice'', joinTime = 0, lastSeen = 0, socketId = 7, status = None\<rparr> \<and>
   map_of (activeUsers (fst (join asciiToLowerCase 5 7 (JString (js ''bob''))
     (run asciiToLowerCase None init [(0, Join 7 (JString (js ''alice'')))])))) 7 =
     Some \<lparr>username = js ''bob'', joinTime = 5, lastSeen = 5, socketId = 7, status = None\<rparr> \<and>
   map fst (activeUsers (fst (join asciiToLowerCase 5 7 (JString (js ''bob''))
     (run asciiToLowerCase None init [(0, Join 7 (JString (js ''alice'')))])))) = [7] \<and>
   fst (join asciiToLowerCase 5 7 (JString (js ''Alice''))
     (run asciiToLowerCase None init [(0, Join 7 (JString (js ''alice'')))])) =
     run asciiToLowerCase None init [(0, Join 7 (JString (js ''alice'')))] \<and>
   fst (join asciiToLowerCase 5 7 JUndefined
     (run asciiToLowerCase None init [(0, Join 7 (JString (js ''alice'')))])) =
     run asciiToLowerCase None init [(0, Join 7 (JString (js ''alice'')))]"
proof -
  let ?alice = "\<lparr>username = js ''alice'', joinTime = 0, lastSeen = 0, socketId = 7, status = None\<rparr>"
  let ?one = "run asciiToLowerCase None init [(0, Join 7 (JString (js ''alice'')))]"
  have one: "activeUsers ?one = [(7, ?alice)]" "bannedUsers ?one = {}"
    by (simp_all add: eval_defs)
  have u: "map_of (activeUsers ?one) 7 = Some ?alice"
    by (simp add: one)
  have free: "isValidUsername asciiToLowerCase (bannedUsers ?one) (sanitizeUsername (js ''bob'')) \<and>
      (\<forall>p \<in> set (activeUsers ?one).
         asciiToLowerCase (username (snd p)) \<noteq> asciiToLowerCase (sanitizeUsername (js ''bob'')))"
    unfolding one by (simp add: username_defs string_defs)
  have held: "\<not> (isValidUsername asciiToLowerCase (bannedUsers ?one) (sanitizeUsername (js ''Alice'')) \<and>
      (\<forall>p \<in> set (activeUsers ?one).
         asciiToLowerCase (username (snd p)) \<noteq> asciiToLowerCase (sanitizeUsername (js ''Alice''))))"
    unfolding one by (simp add: username_defs string_defs)
  note bob = join_on_joined_connection [where lc = asciiToLowerCase and key = None and es = "[]"
      and st = ?one and s = 7 and u = ?alice and now = 5 and v = "JString (js ''bob'')"]
  note own = join_on_joined_connection [where lc = asciiToLowerCase and key = None and es = "[]"
      and st = ?one and s = 7 and u = ?alice and now = 5 and v = "JString (js ''Alice'')"]
  note undef = join_on_joined_connection [where lc = asciiToLowerCase and key = None and es = "[]"
      and st = ?one and s = 7 and u = ?alice and now = 5 and v = JUndefined]
  from bob u free have 1: "map_of (activeUsers (fst (join asciiToLowerCase 5 7 (JString (js ''bob''))
      ?one))) 7 =
     Some \<lparr>username = sanitizeUsername (js ''bob''), joinTime = 5, lastSeen = 5, socketId = 7,
       status = None\<rparr>"
    by (elim conjE) simp
  from bob u have 2: "map fst (activeUsers (fst (join asciiToLowerCase 5 7 (JString (js ''bob''))
      ?one))) = map fst (activeUsers ?one)"
    by (elim conjE) simp
  from own u held have 3: "fst (join asciiToLowerCase 5 7 (JString (js ''Alice'')) ?one) = ?one"
    by (elim conjE) simp
  from undef u have 4: "fst (join asciiToLowerCase 5 7 JUndefined ?one) = ?one"
    by (elim conjE) simp
  have san: "sanitizeUsername (js ''bob'') = js ''bob''"
    by (simp add: username_defs string_defs)
  show ?thesis using u 1 2 3 4 by (simp add: san one)
qed

section \<open>Accepted usernames\<close>

lemma trim_ends:
  "trim s \<noteq> [] \<Longrightarrow> \<not> isWhiteSpace (hd (trim s)) \<and> \<not> isWhiteSpace (last (trim s))"
proof -
  assume ne: "trim s \<noteq> []"
  let ?a = "dropWhile isWhiteSpace s"
  let ?b = "dropWhile isWhiteSpace (rev ?a)"
  have b: "?b \<noteq> []" using ne by (simp add: trim_def)
  then have hb: "\<not> isWhiteSpace (hd ?b)" by (rule hd_dropWhile)
  have "rev ?a \<noteq> []" using b by (metis dropWhile.simps(1))
  then have a: "?a \<noteq> []" by simp
  then have ha: "\<not> isWhiteSpace (hd ?a)" by (rule hd_dropWhile)
  have l: "last (trim s) = hd ?b" using b by (simp add: trim_def last_rev)
  obtain k where k: "?b = drop k (rev ?a)"
    by (metis dropWhile_eq_drop)
  have "hd (trim s) = last ?b" using b by (simp add: trim_def hd_rev)
  also have "\<dots> = last (rev ?a)" using b k by (metis last_drop not_le drop_eq_Nil)
  also have "\<dots> = hd ?a" using a by (simp add: last_rev)
  finally show ?thesis using ha hb l by simp
qed

lemma set_trim: "set (trim s) \<subseteq> set s"
  by (auto simp: trim_def dest!: set_dropWhileD)

lemma accepted_username_shape:
  assumes "isValidUsername lc banned (sanitizeUsername raw)"
  shows "1 \<le> length (sanitizeUsername raw)" "length (sanitizeUsername raw) \<le> 20"
    "\<forall>c \<in> set (sanitizeUsername raw). specUsernameChar c \<or> isWhiteSpace c"
    "lc (sanitizeUsername raw) \<notin> banned"
    "LT \<notin> set (sanitizeUsername raw)" "GT \<notin> set (sanitizeUsername raw)"
    "\<not> isWhiteSpace (hd (sanitizeUsername raw))" "\<not> isWhiteSpace (last (sanitizeUsername raw))"
proof -
  show "1 \<le> length (sanitizeUsername raw)" "length (sanitizeUsername raw) \<le> 20"
    "lc (sanitizeUsername raw) \<notin> banned"
    using assms by (simp_all add: isValidUsername_def)
  show "\<forall>c \<in> set (sanitizeUsername raw). specUsernameChar c \<or> isWhiteSpace c"
    using assms by (auto simp: isValidUsername_def list_all_iff usernameChar_def specUsernameChar_def)
  have "set (sanitizeUsername raw) \<subseteq> set (stripAngles raw)"
    unfolding sanitizeUsername_def by (rule set_trim)
  then show "LT \<notin> set (sanitizeUsername raw)" "GT \<notin> set (sanitizeUsername raw)"
    by (auto simp: stripAngles_def)
  have "sanitizeUsername raw \<noteq> []" using assms by (simp add: isValidUsername_def)
  then show "\<not> isWhiteSpace (hd (sanitizeUsername raw))"
    "\<not> isWhiteSpace (last (sanitizeUsername raw))"
    unfolding sanitizeUsername_def using trim_ends by blast+
qed

text \<open>
  C4 holds of the length and of the ban list, and fails for the characters: the class of
  \<open>isValidUsername\<close> has \<open>\s\<close> where the specification, and the error message of the
  handler itself, has the space. The name \<open>a\<close>, tab, \<open>b\<close> is sanitized to itself,
  accepted and entered in the registry, and its tab is none of the characters of the
  specification.
\<close>

theorem username_with_tab_accepted:
  "sanitizeUsername [97, 9, 98] = [97, 9, 98] \<and>
   isValidUsername lc {} (sanitizeUsername [97, 9, 98]) \<and>
   \<not> list_all specUsernameChar (sanitizeUsername [97, 9, 98]) \<and>
   fst (join lc 0 7 (JString [97, 9, 98]) init) =
     init\<lparr>activeUsers := [(7, \<lparr>username = [97, 9, 98], joinTime = 0, lastSeen = 0,
                               socketId = 7, status = None\<rparr>)],
          mainChat := {7}\<rparr>"
  by (simp add: join_def init_def Let_def username_defs string_defs specUsernameChar_def)

section \<open>Leaving\<close>

lemma twoJoined_reachable:
  "run asciiToLowerCase None init
     [(0, Connection 7), (0, Connection 8), (1, Join 7 (JString (js ''alice''))),
      (60000, Join 8 (JString (js '' bob '')))] = twoJoined"
  by (simp add: eval_defs connection_def twoJoined_def insert_commute)

lemma map_of_delete_same: "map_of (AList.delete k xs) k = None"
  by (simp add: AList.delete_conv')

lemma handleUserDisconnection_joined:
  "map_of (activeUsers st) s = Some u \<Longrightarrow>
   snd (handleUserDisconnection now s st) =
     [Emit (ToRoomExcept s) (UserLeft (username u) (length (AList.delete s (activeUsers st))) now)]"
  by (simp add: handleUserDisconnection_def Let_def)

lemma handleUserDisconnection_absent:
  "map_of (activeUsers st) s = None \<Longrightarrow> handleUserDisconnection now s st = (st, [])"
  by (simp add: handleUserDisconnection_def)

lemma handleUserDisconnection_rooms:
  "sockets (fst (handleUserDisconnection now s st)) = sockets st"
  "mainChat (fst (handleUserDisconnection now s st)) = mainChat st"
  by (simp_all add: handleUserDisconnection_def Let_def split: option.splits)

lemma handleUserDisconnection_twice:
  "handleUserDisconnection now' s (fst (handleUserDisconnection now s st)) =
   (fst (handleUserDisconnection now s st), [])"
  by (rule handleUserDisconnection_absent)
     (simp add: handleUserDisconnection_users map_of_delete_same)

lemma length_delete_distinct:
  "distinct (map fst xs) \<Longrightarrow> map_of xs k = Some v \<Longrightarrow>
   length (AList.delete k xs) = length xs - 1"
proof (induction xs)
  case Nil
  then show ?case by simp
next
  case (Cons p ps)
  show ?case
  proof (cases "fst p = k")
    case True
    then have "k \<notin> fst ` set ps" using Cons.prems(1) by auto
    then have "filter (\<lambda>q. fst q \<noteq> k) ps = ps"
      by (auto simp: filter_id_conv)
    with True show ?thesis by (simp add: delete_filter)
  next
    case False
    then have "map_of ps k = Some v" using Cons.prems(2) by (cases p) auto
    then have "ps \<noteq> []" by auto
    with False Cons show ?thesis by (cases p) auto
  qed
qed

lemma keys_update: "fst ` set (AList.update k v xs) = insert k (fst ` set xs)"
  by (simp add: AList.dom_update)

lemma keys_update_present:
  "map_of xs k = Some old \<Longrightarrow> fst ` set (AList.update k v xs) = fst ` set xs"
  by (auto simp: keys_update dest: map_of_SomeD intro: rev_image_eqI)

lemma keys_delete: "fst ` set (AList.delete k xs) = fst ` set xs - {k}"
  by (auto simp: delete_filter)

lemma join_in_room:
  "fst ` set (activeUsers st) \<subseteq> mainChat st \<Longrightarrow>
   fst ` set (activeUsers (fst (join lc now s v st))) \<subseteq> mainChat (fst (join lc now s v st))"
  by (cases v) (auto simp: join_def Let_def keys_update)

lemma message_in_room:
  "fst ` set (activeUsers st) \<subseteq> mainChat st \<Longrightarrow>
   fst ` set (activeUsers (fst (message now s v st))) \<subseteq> mainChat (fst (message now s v st))"
  by (simp add: message_def Let_def split_beta keys_update_present
        split: option.splits jsvalue.splits)

lemma handleUserDisconnection_in_room:
  "fst ` set (activeUsers st) \<subseteq> mainChat st \<Longrightarrow>
   fst ` set (activeUsers (fst (handleUserDisconnection now s st)))
     \<subseteq> mainChat (fst (handleUserDisconnection now s st))"
  by (auto simp: handleUserDisconnection_users handleUserDisconnection_rooms keys_delete)

lemma disconnect_in_room:
  "fst ` set (activeUsers st) \<subseteq> mainChat st \<Longrightarrow>
   fst ` set (activeUsers (fst (disconnect now s st))) \<subseteq> mainChat (fst (disconnect now s st))"
  by (auto simp: disconnect_def handleUserDisconnection_users handleUserDisconnection_rooms
        keys_delete)

lemma banDisconnect_in_room:
  "fst ` set (activeUsers st) \<subseteq> mainChat st \<Longrightarrow>
   fst ` set (activeUsers (fst (banDisconnect lc now name es st)))
     \<subseteq> mainChat (fst (banDisconnect lc now name es st))"
  by (induction lc now name es st rule: banDisconnect.induct)
     (simp_all add: split_beta disconnect_in_room)

lemma ban_in_room:
  "fst ` set (activeUsers st) \<subseteq> mainChat st \<Longrightarrow>
   fst ` set (activeUsers (fst (ban lc key now req st))) \<subseteq> mainChat (fst (ban lc key now req st))"
  by (simp add: ban_def Let_def split_beta banDisconnect_in_room split: jsvalue.splits)

lemma cleanup_in_room:
  "fst ` set (activeUsers st) \<subseteq> mainChat st \<Longrightarrow>
   fst ` set (activeUsers (fst (cleanup now st))) \<subseteq> mainChat (fst (cleanup now st))"
proof -
  assume a: "fst ` set (activeUsers st) \<subseteq> mainChat st"
  have "mainChat (fst (cleanup now st)) = mainChat st"
    by (simp add: cleanup_def split_beta)
  moreover have "set (activeUsers (fst (cleanup now st))) \<subseteq> set (activeUsers st)"
    by (simp add: cleanup_users)
  ultimately show ?thesis using a by auto
qed

lemma step_in_room:
  "fst ` set (activeUsers st) \<subseteq> mainChat st \<Longrightarrow>
   fst ` set (activeUsers (fst (step lc key st e))) \<subseteq> mainChat (fst (step lc key st e))"
proof (cases e)
  case (Pair now ev)
  assume ok: "fst ` set (activeUsers st) \<subseteq> mainChat st"
  show ?thesis
  proof (cases ev)
    case (Join s v)
    with Pair ok show ?thesis by (simp add: join_in_room)
  next
    case (MessageEv s v)
    with Pair ok show ?thesis by (simp add: message_in_room)
  next
    case (UserIdle s)
    with Pair ok show ?thesis
      by (simp add: userIdle_def keys_update_present split: option.splits)
  next
    case (UserActive s)
    with Pair ok show ?thesis
      by (simp add: userActive_def keys_update_present split: option.splits)
  next
    case (Leave s)
    with Pair ok show ?thesis by (simp add: leave_def handleUserDisconnection_in_room)
  next
    case (Disconnect s)
    with Pair ok show ?thesis by (simp add: disconnect_in_room)
  next
    case Cleanup
    with Pair ok show ?thesis by (simp add: cleanup_in_room)
  next
    case (Ban req)
    with Pair ok show ?thesis by (simp add: ban_in_room)
  next
    case (Unban req)
    with Pair ok show ?thesis by (auto simp: unban_def split: jsvalue.splits)
  next
    case (Connection s)
    with Pair ok show ?thesis by (simp add: connection_def)
  next
    case (Typing s v)
    with Pair ok show ?thesis by (auto simp: typing_def split: option.splits)
  qed
qed

lemma run_in_room:
  "fst ` set (activeUsers st) \<subseteq> mainChat st \<Longrightarrow>
   fst ` set (activeUsers (run lc key st es)) \<subseteq> mainChat (run lc key st es)"
proof (induction es arbitrary: st)
  case Nil
  then show ?case by (simp add: run_def)
next
  case (Cons e es)
  then show ?case by (simp add: run_Cons step_in_room)
qed

lemma others_receive:
  assumes "fst ` set (activeUsers st) \<subseteq> mainChat st"
  shows "fst ` set (activeUsers (fst (leave now s st)))
      \<subseteq> recipients (fst (leave now s st)) (ToRoomExcept s)"
    and "fst ` set (activeUsers (fst (disconnect now s st)))
      \<subseteq> recipients (fst (disconnect now s st)) (ToRoomExcept s)"
  using assms
  by (auto simp: leave_def disconnect_def recipients_def handleUserDisconnection_users
        handleUserDisconnection_rooms keys_delete)

text \<open>
  C7. Leaving is idempotent. The first \<open>leave\<close> or \<open>disconnect\<close> of a connection that is
  in the registry removes its entry and emits exactly one \<open>userLeft\<close>, with the username,
  the size of the registry after the removal (one less than before) and the time, to the
  room without the leaving socket; every other connection of the registry is in that
  audience, as the registry lies within the room in every state the server reaches. On a
  connection that is not in the registry, and so on a second \<open>leave\<close> or \<open>disconnect\<close>,
  the handler changes nothing of the registry or the rate activity and emits nothing.
\<close>

theorem leave_idempotent:
  "(map_of (activeUsers st) s = Some u \<longrightarrow>
      activeUsers (fst (leave now s st)) = AList.delete s (activeUsers st) \<and>
      map_of (activeUsers (fst (leave now s st))) s = None \<and>
      snd (leave now s st) =
        [Emit (ToRoomExcept s)
           (UserLeft (username u) (length (activeUsers (fst (leave now s st)))) now)] \<and>
      recipients (fst (leave now s st)) (ToRoomExcept s) = mainChat st - {s} \<and>
      activeUsers (fst (disconnect now s st)) = AList.delete s (activeUsers st) \<and>
      map_of (activeUsers (fst (disconnect now s st))) s = None \<and>
      snd (disconnect now s st) =
        [Emit (ToRoomExcept s)
           (UserLeft (username u) (length (activeUsers (fst (disconnect now s st)))) now)] \<and>
      recipients (fst (disconnect now s st)) (ToRoomExcept s) = mainChat st - {s} \<and>
      (distinct (map fst (activeUsers st)) \<longrightarrow>
         length (AList.delete s (activeUsers st)) = length (activeUsers st) - 1)) \<and>
   (map_of (activeUsers st) s = None \<longrightarrow>
      leave now s st = (st, []) \<and>
      disconnect now s st =
        (st\<lparr>sockets := sockets st - {s}, mainChat := mainChat st - {s}\<rparr>, [])) \<and>
   leave now' s (fst (leave now s st)) = (fst (leave now s st), []) \<and>
   leave now' s (fst (disconnect now s st)) = (fst (disconnect now s st), []) \<and>
   disconnect now' s (fst (disconnect now s st)) = (fst (disconnect now s st), []) \<and>
   disconnect now' s (fst (leave now s st)) =
     ((fst (leave now s st))\<lparr>sockets := sockets st - {s}, mainChat := mainChat st - {s}\<rparr>, []) \<and>
   snd (leave now s st) @ snd (leave now' s (fst (leave now s st))) = snd (leave now s st) \<and>
   length (snd (leave now s st)) \<le> 1 \<and>
   (fst ` set (activeUsers st) \<subseteq> mainChat st \<longrightarrow>
      fst ` set (activeUsers (fst (leave now s st)))
        \<subseteq> recipients (fst (leave now s st)) (ToRoomExcept s) \<and>
      fst ` set (activeUsers (fst (disconnect now s st)))
        \<subseteq> recipients (fst (disconnect now s st)) (ToRoomExcept s)) \<and>
   fst ` set (activeUsers (run lc key init es)) \<subseteq> mainChat (run lc key init es)"
proof -
  let ?st' = "st\<lparr>sockets := sockets st - {s}, mainChat := mainChat st - {s}\<rparr>"
  have first: "activeUsers (fst (leave now s st)) = AList.delete s (activeUsers st) \<and>
      map_of (activeUsers (fst (leave now s st))) s = None \<and>
      snd (leave now s st) =
        [Emit (ToRoomExcept s)
           (UserLeft (username u) (length (activeUsers (fst (leave now s st)))) now)] \<and>
      recipients (fst (leave now s st)) (ToRoomExcept s) = mainChat st - {s} \<and>
      activeUsers (fst (disconnect now s st)) = AList.delete s (activeUsers st) \<and>
      map_of (activeUsers (fst (disconnect now s st))) s = None \<and>
      snd (disconnect now s st) =
        [Emit (ToRoomExcept s)
           (UserLeft (username u) (length (activeUsers (fst (disconnect now s st)))) now)] \<and>
      recipients (fst (disconnect now s st)) (ToRoomExcept s) = mainChat st - {s} \<and>
      (distinct (map fst (activeUsers st)) \<longrightarrow>
         length (AList.delete s (activeUsers st)) = length (activeUsers st) - 1)"
    if u: "map_of (activeUsers st) s = Some u"
  proof -
    have u': "map_of (activeUsers ?st') s = Some u" using u by simp
    show ?thesis
      using handleUserDisconnection_joined [OF u, of now]
        handleUserDisconnection_joined [OF u', of now] length_delete_distinct [OF _ u]
      by (simp add: leave_def disconnect_def handleUserDisconnection_users map_of_delete_same
            recipients_def handleUserDisconnection_rooms)
  qed
  have absent: "leave now s st = (st, []) \<and> disconnect now s st = (?st', [])"
    if "map_of (activeUsers st) s = None"
    using that by (simp add: leave_def disconnect_def handleUserDisconnection_absent)
  have ll: "leave now' s (fst (leave now s st)) = (fst (leave now s st), [])"
    by (simp add: leave_def handleUserDisconnection_twice)
  have ld: "leave now' s (fst (disconnect now s st)) = (fst (disconnect now s st), [])"
    by (simp add: leave_def disconnect_def handleUserDisconnection_twice)
  have gone: "map_of (activeUsers (fst (handleUserDisconnection now s x))) s = None" for x
    by (simp add: handleUserDisconnection_users map_of_delete_same)
  have dd: "disconnect now' s (fst (disconnect now s st)) = (fst (disconnect now s st), [])"
  proof -
    let ?d = "fst (handleUserDisconnection now s ?st')"
    have "?d\<lparr>sockets := sockets ?d - {s}, mainChat := mainChat ?d - {s}\<rparr> = ?d"
      by (simp add: handleUserDisconnection_rooms)
    then show ?thesis
      using handleUserDisconnection_twice [of now' s now ?st']
      by (simp add: disconnect_def)
  qed
  have dl: "disconnect now' s (fst (leave now s st)) =
     ((fst (leave now s st))\<lparr>sockets := sockets st - {s}, mainChat := mainChat st - {s}\<rparr>, [])"
  proof -
    let ?l = "fst (handleUserDisconnection now s st)"
    have "map_of (activeUsers (?l\<lparr>sockets := sockets ?l - {s}, mainChat := mainChat ?l - {s}\<rparr>)) s = None"
      using gone [of st] by simp
    then show ?thesis
      by (simp add: disconnect_def leave_def handleUserDisconnection_absent
            handleUserDisconnection_rooms)
  qed
  have one: "length (snd (leave now s st)) \<le> 1"
    by (simp add: leave_def handleUserDisconnection_def Let_def split: option.splits)
  have app: "snd (leave now s st) @ snd (leave now' s (fst (leave now s st))) = snd (leave now s st)"
    by (simp add: ll)
  have "fst ` set (activeUsers init) \<subseteq> mainChat init"
    by (simp add: init_def)
  then have room: "fst ` set (activeUsers (run lc key init es)) \<subseteq> mainChat (run lc key init es)"
    by (rule run_in_room)
  from first absent ll ld dd dl app one others_receive [of st now s] room show ?thesis
    by blast
qed


theorem leave_idempotent_witness:
  "map_of (activeUsers twoJoined) 8 =
     Some \<lparr>username = js ''bob'', joinTime = 60000, lastSeen = 60000, socketId = 8, status = None\<rparr> \<and>
   distinct (map fst (activeUsers twoJoined)) \<and>
   map_of (activeUsers (fst (leave 70000 8 twoJoined))) 8 = None \<and>
   snd (leave 70000 8 twoJoined) = [Emit (ToRoomExcept 8) (UserLeft (js ''bob'') 1 70000)] \<and>
   recipients (fst (leave 70000 8 twoJoined)) (ToRoomExcept 8) = {7} \<and>
   snd (disconnect 70000 8 twoJoined) = [Emit (ToRoomExcept 8) (UserLeft (js ''bob'') 1 70000)] \<and>
   leave 80000 8 (fst (leave 70000 8 twoJoined)) = (fst (leave 70000 8 twoJoined), []) \<and>
   map_of (activeUsers twoJoined) 9 = None \<and>
   leave 70000 9 twoJoined = (twoJoined, []) \<and>
   fst ` set (activeUsers twoJoined) \<subseteq> mainChat twoJoined \<and>
   fst ` set (activeUsers (fst (leave 70000 8 twoJoined)))
     \<subseteq> recipients (fst (leave 70000 8 twoJoined)) (ToRoomExcept 8)"
proof -
  let ?bob = "\<lparr>username = js ''bob'', joinTime = 60000, lastSeen = 60000, socketId = 8,
    status = None\<rparr>"
  have u: "map_of (activeUsers twoJoined) 8 = Some ?bob"
    by (simp add: twoJoined_def)
  have d: "distinct (map fst (activeUsers twoJoined))"
    by (simp add: twoJoined_def)
  have n: "map_of (activeUsers twoJoined) 9 = None"
    by (simp add: twoJoined_def)
  have len: "length (activeUsers twoJoined) - 1 = 1" "mainChat twoJoined - {8} = {7}"
    by (auto simp: twoJoined_def)
  have room: "fst ` set (activeUsers twoJoined) \<subseteq> mainChat twoJoined"
    by (simp add: twoJoined_def)
  note T = leave_idempotent [where st = twoJoined and s = 8 and u = ?bob and now = 70000
      and now' = 80000 and lc = asciiToLowerCase and key = None and es = "[]"]
  note N = leave_idempotent [where st = twoJoined and s = 9 and u = ?bob and now = 70000
      and now' = 80000 and lc = asciiToLowerCase and key = None and es = "[]"]
  from T room have 9: "fst ` set (activeUsers (fst (leave 70000 8 twoJoined)))
     \<subseteq> recipients (fst (leave 70000 8 twoJoined)) (ToRoomExcept 8)"
    by blast
  from T u have 0: "activeUsers (fst (leave 70000 8 twoJoined)) = AList.delete 8 (activeUsers twoJoined)"
    and 1: "map_of (activeUsers (fst (leave 70000 8 twoJoined))) 8 = None"
    and 2: "snd (leave 70000 8 twoJoined) =
      [Emit (ToRoomExcept 8)
         (UserLeft (username ?bob) (length (activeUsers (fst (leave 70000 8 twoJoined)))) 70000)]"
    and 3: "recipients (fst (leave 70000 8 twoJoined)) (ToRoomExcept 8) = mainChat twoJoined - {8}"
    and 7: "activeUsers (fst (disconnect 70000 8 twoJoined)) =
      AList.delete 8 (activeUsers twoJoined)"
    and 4: "snd (disconnect 70000 8 twoJoined) =
      [Emit (ToRoomExcept 8)
         (UserLeft (username ?bob) (length (activeUsers (fst (disconnect 70000 8 twoJoined))))
            70000)]"
    and c: "distinct (map fst (activeUsers twoJoined)) \<longrightarrow>
      length (AList.delete 8 (activeUsers twoJoined)) = length (activeUsers twoJoined) - 1"
    by (blast+)
  from T have 5: "leave 80000 8 (fst (leave 70000 8 twoJoined)) = (fst (leave 70000 8 twoJoined), [])"
    by blast
  from c d have c8: "length (AList.delete 8 (activeUsers twoJoined)) = 1"
    by (simp only: len)
  from N n have 6: "leave 70000 9 twoJoined = (twoJoined, [])"
    by blast
  have "snd (leave 70000 8 twoJoined) = [Emit (ToRoomExcept 8) (UserLeft (js ''bob'') 1 70000)]"
    and "recipients (fst (leave 70000 8 twoJoined)) (ToRoomExcept 8) = {7}"
    and "snd (disconnect 70000 8 twoJoined) = [Emit (ToRoomExcept 8) (UserLeft (js ''bob'') 1 70000)]"
    using 2 3 4 by (simp_all only: 0 7 c8 len) simp_all
  with u d n 1 5 6 room 9 show ?thesis by blast
qed

section \<open>The periodic cleanup\<close>

lemma filter_keys_distinct:
  assumes "distinct (map fst xs)"
  shows "filter (\<lambda>p. fst p \<notin> fst ` {e \<in> set xs. P e}) xs = filter (\<lambda>p. \<not> P p) xs"
proof (rule filter_cong [OF refl])
  fix p assume p: "p \<in> set xs"
  have "e = p" if "e \<in> set xs" "fst e = fst p" for e
    using assms p that by (meson eq_key_imp_eq_value prod.expand  distinct_map inj_onD)
  then show "(fst p \<notin> fst ` {e \<in> set xs. P e}) = (\<not> P p)"
    using p by force
qed

lemma cleanupUsers_emits:
  assumes "distinct (map fst es)" "set es \<subseteq> set users" "distinct (map fst users)"
  shows "snd (cleanupUsers now es users) =
    map (\<lambda>(i, p). Emit ToRoom (UserLeft (username (snd p)) (length users - Suc i) now))
      (enumerate 0 (filter (\<lambda>p. now - lastSeen (snd p) > 30 * 60 * 1000) es))"
  using assms
proof (induction es arbitrary: users)
  case Nil
  then show ?case by simp
next
  case (Cons e es)
  obtain s u where e: "e = (s, u)" by (cases e)
  show ?case
  proof (cases "now - lastSeen u > 30 * 60 * 1000")
    case False
    with Cons e show ?thesis by simp
  next
    case True
    let ?users = "AList.delete s users"
    have mem: "map_of users s = Some u"
      using Cons.prems e by (intro map_of_is_SomeI) auto
    have len: "length ?users = length users - 1"
      using Cons.prems(3) mem by (rule length_delete_distinct)
    have pos: "length users \<noteq> 0" using mem by auto
    have sub: "set es \<subseteq> set ?users"
      using Cons.prems e by (auto simp: delete_filter)
    have dist: "distinct (map fst ?users)"
      using Cons.prems(3) by (rule AList.distinct_delete)
    have IH: "snd (cleanupUsers now es ?users) =
      map (\<lambda>(i, p). Emit ToRoom (UserLeft (username (snd p)) (length ?users - Suc i) now))
        (enumerate 0 (filter (\<lambda>p. now - lastSeen (snd p) > 30 * 60 * 1000) es))"
      using Cons.prems(1) sub dist by (intro Cons.IH) simp_all
    have "snd (cleanupUsers now (e # es) users) =
        Emit ToRoom (UserLeft (username u) (length ?users) now) # snd (cleanupUsers now es ?users)"
      using True e by (simp add: Let_def split_beta)
    also have "\<dots> =
      map (\<lambda>(i, p). Emit ToRoom (UserLeft (username (snd p)) (length users - Suc i) now))
        (enumerate 0 (filter (\<lambda>p. now - lastSeen (snd p) > 30 * 60 * 1000) (e # es)))"
      using True e pos
      by (simp add: IH len enumerate_Suc_eq split_beta o_def)
    finally show ?thesis .
  qed
qed

lemma cleanupActivity_filter:
  "cleanupActivity now es ua =
   filter (\<lambda>p. fst p \<notin> fst ` {e \<in> set es. now - lastMessage (snd e) > 60 * 60 * 1000}) ua"
proof (induction es arbitrary: ua)
  case Nil
  then show ?case by simp
next
  case (Cons e es)
  obtain n a where e: "e = (n, a)" by (cases e)
  show ?case
  proof (cases "now - lastMessage a > 60 * 60 * 1000")
    case True
    have "(\<lambda>p. fst p \<noteq> n \<and> fst p \<notin> fst ` {e \<in> set es. now - lastMessage (snd e) > 60 * 60 * 1000}) =
          (\<lambda>p. fst p \<notin> fst ` {e' \<in> set (e # es). now - lastMessage (snd e') > 60 * 60 * 1000})"
      using True e by (intro ext) force
    then have "filter (\<lambda>p. fst p \<notin> fst ` {e \<in> set es. now - lastMessage (snd e) > 60 * 60 * 1000})
        (filter (\<lambda>p. fst p \<noteq> n) ua) =
      filter (\<lambda>p. fst p \<notin> fst ` {e' \<in> set (e # es). now - lastMessage (snd e') > 60 * 60 * 1000}) ua"
      by (simp only: filter_filter) (erule arg_cong)
    with True e show ?thesis by (simp add: Cons.IH delete_filter)
  next
    case False
    have "{e' \<in> set (e # es). now - lastMessage (snd e') > 60 * 60 * 1000} =
          {e' \<in> set es. now - lastMessage (snd e') > 60 * 60 * 1000}"
      using False e by auto
    with False e show ?thesis by (simp add: Cons.IH)
  qed
qed


lemma checkMessageRateLimit_keys:
  "distinct (map fst ua) \<Longrightarrow> distinct (map fst (snd (checkMessageRateLimit now name ua)))"
  by (simp add: checkMessageRateLimit_def AList.distinct_update split: option.splits)

lemma message_activity_keys:
  "distinct (map fst (userActivity st)) \<Longrightarrow>
   distinct (map fst (userActivity (fst (message now s v st))))"
  by (simp add: message_def Let_def split_beta checkMessageRateLimit_keys
        split: option.splits jsvalue.splits)

lemma handleUserDisconnection_activity_keys:
  "distinct (map fst (userActivity st)) \<Longrightarrow>
   distinct (map fst (userActivity (fst (handleUserDisconnection now s st))))"
  by (simp add: handleUserDisconnection_def Let_def AList.distinct_delete split: option.splits)

lemma disconnect_activity_keys:
  "distinct (map fst (userActivity st)) \<Longrightarrow>
   distinct (map fst (userActivity (fst (disconnect now s st))))"
  by (simp add: disconnect_def handleUserDisconnection_activity_keys)

lemma banDisconnect_activity_keys:
  "distinct (map fst (userActivity st)) \<Longrightarrow>
   distinct (map fst (userActivity (fst (banDisconnect lc now name es st))))"
  by (induction es) (auto simp: split_beta disconnect_activity_keys)

lemma ban_activity_keys:
  "distinct (map fst (userActivity st)) \<Longrightarrow>
   distinct (map fst (userActivity (fst (ban lc key now req st))))"
  by (simp add: ban_def Let_def split_beta banDisconnect_activity_keys split: jsvalue.splits)

lemma cleanup_activity:
  "userActivity (fst (cleanup now st)) =
   filter (\<lambda>p. fst p \<notin> fst ` {e \<in> set (userActivity st). now - lastMessage (snd e) > 60 * 60 * 1000})
     (userActivity st)"
  by (simp add: cleanup_def split_beta cleanupActivity_filter)

lemma step_activity_keys:
  "distinct (map fst (userActivity st)) \<Longrightarrow>
   distinct (map fst (userActivity (fst (step lc key st e))))"
proof (cases e)
  case (Pair now ev)
  assume ok: "distinct (map fst (userActivity st))"
  show ?thesis
  proof (cases ev)
    case (Join s v)
    with Pair ok show ?thesis by (auto simp: join_def Let_def split: jsvalue.splits)
  next
    case (MessageEv s v)
    with Pair ok show ?thesis by (simp add: message_activity_keys)
  next
    case (UserIdle s)
    with Pair ok show ?thesis by (auto simp: userIdle_def split: option.splits)
  next
    case (UserActive s)
    with Pair ok show ?thesis by (auto simp: userActive_def split: option.splits)
  next
    case (Leave s)
    with Pair ok show ?thesis by (simp add: leave_def handleUserDisconnection_activity_keys)
  next
    case (Disconnect s)
    with Pair ok show ?thesis by (simp add: disconnect_activity_keys)
  next
    case Cleanup
    with Pair ok show ?thesis by (simp add: cleanup_activity distinct_map_filter)
  next
    case (Ban req)
    with Pair ok show ?thesis by (simp add: ban_activity_keys)
  next
    case (Unban req)
    with Pair ok show ?thesis by (auto simp: unban_def split: jsvalue.splits)
  next
    case (Connection s)
    with Pair ok show ?thesis by (simp add: connection_def)
  next
    case (Typing s v)
    with Pair ok show ?thesis by (auto simp: typing_def split: option.splits)
  qed
qed

lemma run_activity_keys:
  "distinct (map fst (userActivity st)) \<Longrightarrow> distinct (map fst (userActivity (run lc key st es)))"
proof (induction es arbitrary: st)
  case Nil
  then show ?case by (simp add: run_def)
next
  case (Cons e es)
  then show ?case by (simp add: run_Cons step_activity_keys)
qed

text \<open>
  C8. A cycle of the cleanup removes from the registry exactly the entries whose
  \<open>lastSeen\<close> is more than 30 minutes old and keeps the others, an entry 30 minutes old
  or newer among them, as they are and in their order. For each removed entry, in the
  order of the registry, it emits a \<open>userLeft\<close> to the room with the size of the registry
  right after that removal: the size before the cycle less the number of entries removed
  so far. It removes from the rate activity exactly the entries whose timestamp is more
  than 60 minutes old, and touches nothing else. The keys of both maps are distinct in
  every state the server reaches.
\<close>

theorem cleanup_removes_stale:
  "(distinct (map fst (activeUsers st)) \<longrightarrow>
      activeUsers (fst (cleanup now st)) =
        filter (\<lambda>p. \<not> now - lastSeen (snd p) > 30 * 60 * 1000) (activeUsers st) \<and>
      snd (cleanup now st) =
        map (\<lambda>(i, p). Emit ToRoom
               (UserLeft (username (snd p)) (length (activeUsers st) - Suc i) now))
          (enumerate 0 (filter (\<lambda>p. now - lastSeen (snd p) > 30 * 60 * 1000) (activeUsers st)))) \<and>
   (distinct (map fst (userActivity st)) \<longrightarrow>
      userActivity (fst (cleanup now st)) =
        filter (\<lambda>p. \<not> now - lastMessage (snd p) > 60 * 60 * 1000) (userActivity st)) \<and>
   recentMessages (fst (cleanup now st)) = recentMessages st \<and>
   bannedUsers (fst (cleanup now st)) = bannedUsers st \<and>
   sockets (fst (cleanup now st)) = sockets st \<and>
   mainChat (fst (cleanup now st)) = mainChat st \<and>
   distinct (map fst (activeUsers (run lc key init es))) \<and>
   distinct (map fst (userActivity (run lc key init es)))"
proof -
  have users: "activeUsers (fst (cleanup now st)) =
        filter (\<lambda>p. \<not> now - lastSeen (snd p) > 30 * 60 * 1000) (activeUsers st)"
    if "distinct (map fst (activeUsers st))"
    using that by (simp only: cleanup_users filter_keys_distinct)
  have emits: "snd (cleanup now st) =
        map (\<lambda>(i, p). Emit ToRoom
               (UserLeft (username (snd p)) (length (activeUsers st) - Suc i) now))
          (enumerate 0 (filter (\<lambda>p. now - lastSeen (snd p) > 30 * 60 * 1000) (activeUsers st)))"
    if "distinct (map fst (activeUsers st))"
    using cleanupUsers_emits [OF that subset_refl that, of now]
    by (simp add: cleanup_def split_beta)
  have act: "userActivity (fst (cleanup now st)) =
        filter (\<lambda>p. \<not> now - lastMessage (snd p) > 60 * 60 * 1000) (userActivity st)"
    if "distinct (map fst (userActivity st))"
    using that by (simp only: cleanup_activity filter_keys_distinct)
  have frame: "recentMessages (fst (cleanup now st)) = recentMessages st"
    "bannedUsers (fst (cleanup now st)) = bannedUsers st"
    "sockets (fst (cleanup now st)) = sockets st"
    "mainChat (fst (cleanup now st)) = mainChat st"
    by (simp_all add: cleanup_def split_beta)
  have "registryOk lc (activeUsers (run lc key init es))"
    using init_registryOk by (rule run_registryOk)
  then have k1: "distinct (map fst (activeUsers (run lc key init es)))"
    by (simp add: registryOk_def)
  have "distinct (map fst (userActivity init))" by (simp add: init_def)
  then have k2: "distinct (map fst (userActivity (run lc key init es)))"
    by (rule run_activity_keys)
  from users emits act frame k1 k2 show ?thesis by blast
qed


theorem cleanup_removes_stale_witness:
  "distinct (map fst (activeUsers twoJoined)) \<and>
   activeUsers (fst (cleanup 1800002 twoJoined)) =
     [(8, \<lparr>username = js ''bob'', joinTime = 60000, lastSeen = 60000, socketId = 8,
           status = None\<rparr>)] \<and>
   snd (cleanup 1800002 twoJoined) = [Emit ToRoom (UserLeft (js ''alice'') 1 1800002)] \<and>
   activeUsers (fst (cleanup 1800001 twoJoined)) = activeUsers twoJoined \<and>
   snd (cleanup 1800001 twoJoined) = [] \<and>
   distinct (map fst (userActivity (twoJoined\<lparr>userActivity :=
      [(js ''alice'', \<lparr>messageCount = 3, lastMessage = 1\<rparr>),
       (js ''bob'', \<lparr>messageCount = 1, lastMessage = 60000\<rparr>)]\<rparr>))) \<and>
   userActivity (fst (cleanup 3600002 (twoJoined\<lparr>userActivity :=
      [(js ''alice'', \<lparr>messageCount = 3, lastMessage = 1\<rparr>),
       (js ''bob'', \<lparr>messageCount = 1, lastMessage = 60000\<rparr>)]\<rparr>))) =
     [(js ''bob'', \<lparr>messageCount = 1, lastMessage = 60000\<rparr>)]"
proof -
  let ?bob = "\<lparr>username = js ''bob'', joinTime = 60000, lastSeen = 60000, socketId = 8,
    status = None\<rparr>"
  let ?ua = "[(js ''alice'', \<lparr>messageCount = 3, lastMessage = 1\<rparr>),
       (js ''bob'', \<lparr>messageCount = 1, lastMessage = 60000\<rparr>)]"
  let ?st = "twoJoined\<lparr>userActivity := ?ua\<rparr>"
  have d: "distinct (map fst (activeUsers twoJoined))"
    by (simp add: twoJoined_def)
  have da: "distinct (map fst (userActivity ?st))"
    by (simp add: js_def)
  note late = cleanup_removes_stale [where st = twoJoined and now = 1800002
      and lc = asciiToLowerCase and key = None and es = "[]"]
  note edge = cleanup_removes_stale [where st = twoJoined and now = 1800001
      and lc = asciiToLowerCase and key = None and es = "[]"]
  note hour = cleanup_removes_stale [where st = ?st and now = 3600002
      and lc = asciiToLowerCase and key = None and es = "[]"]
  from late d have 1: "activeUsers (fst (cleanup 1800002 twoJoined)) =
        filter (\<lambda>p. \<not> 1800002 - lastSeen (snd p) > 30 * 60 * 1000) (activeUsers twoJoined)"
    and 2: "snd (cleanup 1800002 twoJoined) =
        map (\<lambda>(i, p). Emit ToRoom
               (UserLeft (username (snd p)) (length (activeUsers twoJoined) - Suc i) 1800002))
          (enumerate 0 (filter (\<lambda>p. 1800002 - lastSeen (snd p) > 30 * 60 * 1000)
             (activeUsers twoJoined)))"
    by (blast+)
  from edge d have 3: "activeUsers (fst (cleanup 1800001 twoJoined)) =
        filter (\<lambda>p. \<not> 1800001 - lastSeen (snd p) > 30 * 60 * 1000) (activeUsers twoJoined)"
    and 4: "snd (cleanup 1800001 twoJoined) =
        map (\<lambda>(i, p). Emit ToRoom
               (UserLeft (username (snd p)) (length (activeUsers twoJoined) - Suc i) 1800001))
          (enumerate 0 (filter (\<lambda>p. 1800001 - lastSeen (snd p) > 30 * 60 * 1000)
             (activeUsers twoJoined)))"
    by (blast+)
  from hour da have 5: "userActivity (fst (cleanup 3600002 ?st)) =
        filter (\<lambda>p. \<not> 3600002 - lastMessage (snd p) > 60 * 60 * 1000) (userActivity ?st)"
    by blast
  have 1: "activeUsers (fst (cleanup 1800002 twoJoined)) = [(8, ?bob)]"
    unfolding 1 by (simp add: twoJoined_def)
  have 2: "snd (cleanup 1800002 twoJoined) = [Emit ToRoom (UserLeft (js ''alice'') 1 1800002)]"
    unfolding 2 by (simp add: twoJoined_def)
  have 3: "activeUsers (fst (cleanup 1800001 twoJoined)) = activeUsers twoJoined"
    unfolding 3 by (simp add: twoJoined_def)
  have 4: "snd (cleanup 1800001 twoJoined) = []"
    unfolding 4 by (simp add: twoJoined_def)
  have 5: "userActivity (fst (cleanup 3600002 ?st)) =
     [(js ''bob'', \<lparr>messageCount = 1, lastMessage = 60000\<rparr>)]"
    unfolding 5 by simp
  from d da 1 2 3 4 5 show ?thesis by blast
qed

section \<open>After an eviction\<close>

lemma cleanupUsers_only_emits:
  "a \<in> set (snd (cleanupUsers now es users)) \<Longrightarrow> \<exists>n c. a = Emit ToRoom (UserLeft n c now)"
  by (induction es arbitrary: users) (auto simp: Let_def split_beta split: if_splits)

lemma cleanup_evicts:
  assumes "map_of (activeUsers st) s = Some u" "now - lastSeen u > 30 * 60 * 1000"
  shows "map_of (activeUsers (fst (cleanup now st))) s = None"
proof -
  have "(s, u) \<in> set (activeUsers st)"
    using assms(1) by (rule map_of_SomeD)
  then have "s \<in> fst ` {e \<in> set (activeUsers st). now - lastSeen (snd e) > 30 * 60 * 1000}"
    using assms(2) by force
  then have "\<forall>p \<in> set (activeUsers (fst (cleanup now st))). fst p \<noteq> s"
    unfolding cleanup_users by auto
  then show ?thesis
    by (force simp: map_of_eq_None_iff)
qed

lemma message_not_joined:
  "map_of (activeUsers st) s = None \<Longrightarrow>
   message now s v st = (st, [Emit (ToSocket s) (Error MustJoinFirst)])"
  by (simp add: message_def)

text \<open>
  C10. The cleanup removes the registry entry of a stale connection and leaves its
  transport alone: the sockets and the room are as before and no emission of the cycle
  closes a socket. A message event of the evicted connection is then answered like that
  of any connection that is not in the registry: one error, that it must join first, to
  this socket, and the state, with its registry and its buffer, unchanged.
\<close>

theorem evicted_connection_must_rejoin:
  "(map_of (activeUsers st) s = Some u \<and> now - lastSeen u > 30 * 60 * 1000 \<longrightarrow>
      map_of (activeUsers (fst (cleanup now st))) s = None \<and>
      sockets (fst (cleanup now st)) = sockets st \<and>
      mainChat (fst (cleanup now st)) = mainChat st \<and>
      (\<forall>a \<in> set (snd (cleanup now st)). \<exists>n c. a = Emit ToRoom (UserLeft n c now)) \<and>
      message now' s v (fst (cleanup now st)) =
        (fst (cleanup now st), [Emit (ToSocket s) (Error MustJoinFirst)])) \<and>
   (map_of (activeUsers st) s = None \<longrightarrow>
      message now' s v st = (st, [Emit (ToSocket s) (Error MustJoinFirst)]))"
proof -
  have ev: "map_of (activeUsers (fst (cleanup now st))) s = None"
    if "map_of (activeUsers st) s = Some u" "now - lastSeen u > 30 * 60 * 1000"
    using that by (rule cleanup_evicts)
  have frame: "sockets (fst (cleanup now st)) = sockets st"
    "mainChat (fst (cleanup now st)) = mainChat st"
    by (simp_all add: cleanup_def split_beta)
  have em: "\<forall>a \<in> set (snd (cleanup now st)). \<exists>n c. a = Emit ToRoom (UserLeft n c now)"
    by (auto simp: cleanup_def split_beta dest: cleanupUsers_only_emits)
  from ev frame em message_not_joined show ?thesis by blast
qed

theorem evicted_connection_must_rejoin_witness:
  "map_of (activeUsers twoJoined) 7 =
     Some \<lparr>username = js ''alice'', joinTime = 1, lastSeen = 1, socketId = 7, status = None\<rparr> \<and>
   (1800002::int) - 1 > 30 * 60 * 1000 \<and>
   7 \<in> sockets (fst (cleanup 1800002 twoJoined)) \<and>
   message 1800003 7 (Some (JString (js ''hi''))) (fst (cleanup 1800002 twoJoined)) =
     (fst (cleanup 1800002 twoJoined), [Emit (ToSocket 7) (Error MustJoinFirst)]) \<and>
   map_of (activeUsers twoJoined) 9 = None \<and>
   message 5 9 (Some (JString (js ''hi''))) twoJoined =
     (twoJoined, [Emit (ToSocket 9) (Error MustJoinFirst)])"
proof -
  let ?alice = "\<lparr>username = js ''alice'', joinTime = 1, lastSeen = 1, socketId = 7, status = None\<rparr>"
  have u: "map_of (activeUsers twoJoined) 7 = Some ?alice"
    by (simp add: twoJoined_def)
  have old: "(1800002::int) - lastSeen ?alice > 30 * 60 * 1000"
    by simp
  have n: "map_of (activeUsers twoJoined) 9 = None"
    by (simp add: twoJoined_def)
  have s: "7 \<in> sockets twoJoined"
    by (simp add: twoJoined_def)
  note T = evicted_connection_must_rejoin [where st = twoJoined and s = 7 and u = ?alice
      and now = 1800002 and now' = 1800003 and v = "Some (JString (js ''hi''))"]
  note N = evicted_connection_must_rejoin [where st = twoJoined and s = 9 and u = ?alice
      and now = 1800002 and now' = 5 and v = "Some (JString (js ''hi''))"]
  from T u old have 1: "sockets (fst (cleanup 1800002 twoJoined)) = sockets twoJoined"
    and 2: "message 1800003 7 (Some (JString (js ''hi''))) (fst (cleanup 1800002 twoJoined)) =
     (fst (cleanup 1800002 twoJoined), [Emit (ToSocket 7) (Error MustJoinFirst)])"
    by (blast+)
  from N n have 3: "message 5 9 (Some (JString (js ''hi''))) twoJoined =
     (twoJoined, [Emit (ToSocket 9) (Error MustJoinFirst)])"
    by blast
  from s 1 have 4: "7 \<in> sockets (fst (cleanup 1800002 twoJoined))"
    by simp
  from u n 2 3 4 show ?thesis by simp
qed

section \<open>The administrative endpoints\<close>

lemma banDisconnect_none:
  "\<forall>p \<in> set es. lc (username (snd p)) \<noteq> lc name \<Longrightarrow> banDisconnect lc now name es st = (st, [])"
  by (induction es) auto

lemma banDisconnect_holder:
  assumes "distinct (map (lowerName lc) es)" "(s, u) \<in> set es" "lc (username u) = lc name"
    "s \<in> sockets st"
  shows "banDisconnect lc now name es st =
    (fst (disconnect now s st),
     Emit (ToSocket s) (Error Banned) # Close s # snd (disconnect now s st))"
  using assms(1,2)
proof (induction es)
  case Nil
  then show ?case by simp
next
  case (Cons e es)
  obtain s' u' where e: "e = (s', u')" by (cases e)
  show ?case
  proof (cases "lc (username u') = lc name")
    case True
    have "e = (s, u)"
    proof (rule ccontr)
      assume "e \<noteq> (s, u)"
      then have "(s, u) \<in> set es" using Cons.prems(2) by simp
      then have "lowerName lc (s, u) \<in> lowerName lc ` set es" by (rule imageI)
      moreover have "lowerName lc e = lowerName lc (s, u)"
        using True e assms(3) by (simp add: lowerName_def)
      ultimately show False using Cons.prems(1) by simp
    qed
    with e True assms(4) show ?thesis by (simp add: split_beta)
  next
    case False
    then have "e \<noteq> (s, u)" using e assms(3) by auto
    then have "(s, u) \<in> set es" using Cons.prems(2) by simp
    with Cons False e show ?thesis by simp
  qed
qed


lemma disconnect_banned: "bannedUsers (fst (disconnect now s st)) = bannedUsers st"
  by (simp add: disconnect_def handleUserDisconnection_def Let_def split: option.splits)

lemma banDisconnect_banned:
  "bannedUsers (fst (banDisconnect lc now name es st)) = bannedUsers st"
  by (induction lc now name es st rule: banDisconnect.induct)
     (simp_all add: split_beta disconnect_banned)

lemma disconnect_joined:
  assumes "map_of (activeUsers st) s = Some u" "distinct (map fst (activeUsers st))"
  shows "snd (disconnect now s st) =
      [Emit (ToRoomExcept s) (UserLeft (username u) (length (activeUsers st) - 1) now)]"
    and "sockets (fst (disconnect now s st)) = sockets st - {s}"
    and "map_of (activeUsers (fst (disconnect now s st))) s = None"
proof -
  let ?st = "st\<lparr>sockets := sockets st - {s}, mainChat := mainChat st - {s}\<rparr>"
  have u: "map_of (activeUsers ?st) s = Some u" using assms(1) by simp
  show "snd (disconnect now s st) =
      [Emit (ToRoomExcept s) (UserLeft (username u) (length (activeUsers st) - 1) now)]"
    using handleUserDisconnection_joined [OF u, of now] length_delete_distinct [OF assms(2,1)]
    by (simp add: disconnect_def)
  show "sockets (fst (disconnect now s st)) = sockets st - {s}"
    by (simp add: disconnect_def handleUserDisconnection_rooms)
  show "map_of (activeUsers (fst (disconnect now s st))) s = None"
    by (simp add: disconnect_users map_of_delete_same)
qed

text \<open>
  C9. A ban with the matching credential and a username adds the lower-case username to
  the ban list. If a connected socket holds that username, compared in lower case, in the
  registry, the ban first sends it the error that it has been banned and then closes it,
  which takes it from the sockets and from the registry and tells the room that the user
  has left; then the request is answered with success. For the ban and the unban alike, a
  credential that does not match is answered with 401 and a missing username, with the
  matching credential, with 400, and the state stays as it is.
\<close>

theorem ban_and_unban:
  "(\<not> strictEq (r_adminKey req) key \<longrightarrow>
      ban lc key now req st = (st, [Respond Unauthorized]) \<and>
      unban lc key req st = (st, [Respond Unauthorized])) \<and>
   statusCode Unauthorized = 401 \<and> statusCode UsernameRequired = 400 \<and>
   (strictEq (r_adminKey req) key \<and> \<not> truthy (r_username req) \<longrightarrow>
      ban lc key now req st = (st, [Respond UsernameRequired]) \<and>
      unban lc key req st = (st, [Respond UsernameRequired])) \<and>
   (strictEq (r_adminKey req) key \<and> r_username req = JString name \<and> name \<noteq> [] \<longrightarrow>
      bannedUsers (fst (ban lc key now req st)) = insert (lc name) (bannedUsers st) \<and>
      (\<forall>s u. registryOk lc (activeUsers st) \<and> map_of (activeUsers st) s = Some u \<and>
             lc (username u) = lc name \<and> s \<in> sockets st \<longrightarrow>
         snd (ban lc key now req st) =
           [Emit (ToSocket s) (Error Banned), Close s,
            Emit (ToRoomExcept s) (UserLeft (username u) (length (activeUsers st) - 1) now),
            Respond (BanDone name)] \<and>
         s \<notin> sockets (fst (ban lc key now req st)) \<and>
         map_of (activeUsers (fst (ban lc key now req st))) s = None) \<and>
      ((\<forall>p \<in> set (activeUsers st). lc (username (snd p)) \<noteq> lc name) \<longrightarrow>
         ban lc key now req st =
           (st\<lparr>bannedUsers := insert (lc name) (bannedUsers st)\<rparr>, [Respond (BanDone name)])))"
proof -
  let ?st1 = "st\<lparr>bannedUsers := insert (lc name) (bannedUsers st)\<rparr>"
  have unauth: "ban lc key now req st = (st, [Respond Unauthorized]) \<and>
      unban lc key req st = (st, [Respond Unauthorized])"
    if "\<not> strictEq (r_adminKey req) key"
    using that by (simp add: ban_def unban_def)
  have missing: "ban lc key now req st = (st, [Respond UsernameRequired]) \<and>
      unban lc key req st = (st, [Respond UsernameRequired])"
    if "strictEq (r_adminKey req) key" "\<not> truthy (r_username req)"
    using that by (simp add: ban_def unban_def)
  have success: "bannedUsers (fst (ban lc key now req st)) = insert (lc name) (bannedUsers st) \<and>
      (\<forall>s u. registryOk lc (activeUsers st) \<and> map_of (activeUsers st) s = Some u \<and>
             lc (username u) = lc name \<and> s \<in> sockets st \<longrightarrow>
         snd (ban lc key now req st) =
           [Emit (ToSocket s) (Error Banned), Close s,
            Emit (ToRoomExcept s) (UserLeft (username u) (length (activeUsers st) - 1) now),
            Respond (BanDone name)] \<and>
         s \<notin> sockets (fst (ban lc key now req st)) \<and>
         map_of (activeUsers (fst (ban lc key now req st))) s = None) \<and>
      ((\<forall>p \<in> set (activeUsers st). lc (username (snd p)) \<noteq> lc name) \<longrightarrow>
         ban lc key now req st = (?st1, [Respond (BanDone name)]))"
    if auth: "strictEq (r_adminKey req) key" and name: "r_username req = JString name" "name \<noteq> []"
  proof -
    have ban: "ban lc key now req st =
        (fst (banDisconnect lc now name (activeUsers st) ?st1),
         snd (banDisconnect lc now name (activeUsers st) ?st1) @ [Respond (BanDone name)])"
      using auth name by (simp add: ban_def Let_def split_beta)
    have banned: "bannedUsers (fst (ban lc key now req st)) = insert (lc name) (bannedUsers st)"
      by (simp add: ban banDisconnect_banned)
    have holder: "snd (ban lc key now req st) =
           [Emit (ToSocket s) (Error Banned), Close s,
            Emit (ToRoomExcept s) (UserLeft (username u) (length (activeUsers st) - 1) now),
            Respond (BanDone name)] \<and>
         s \<notin> sockets (fst (ban lc key now req st)) \<and>
         map_of (activeUsers (fst (ban lc key now req st))) s = None"
      if ok: "registryOk lc (activeUsers st)" and u: "map_of (activeUsers st) s = Some u"
        and eq: "lc (username u) = lc name" and live: "s \<in> sockets st" for s u
    proof -
      have d: "distinct (map (lowerName lc) (activeUsers st))" "distinct (map fst (activeUsers ?st1))"
        using ok by (simp_all add: registryOk_def)
      have mem: "(s, u) \<in> set (activeUsers st)" using u by (rule map_of_SomeD)
      have live1: "s \<in> sockets ?st1" using live by simp
      have u1: "map_of (activeUsers ?st1) s = Some u" using u by simp
      have loop: "banDisconnect lc now name (activeUsers st) ?st1 =
          (fst (disconnect now s ?st1),
           Emit (ToSocket s) (Error Banned) # Close s # snd (disconnect now s ?st1))"
        using d(1) mem eq live1 by (rule banDisconnect_holder)
      show ?thesis
        using disconnect_joined [OF u1 d(2), of now]
        by (simp add: ban loop)
    qed
    have nobody: "ban lc key now req st = (?st1, [Respond (BanDone name)])"
      if "\<forall>p \<in> set (activeUsers st). lc (username (snd p)) \<noteq> lc name"
      using that by (simp add: ban banDisconnect_none)
    from banned holder nobody show ?thesis by blast
  qed
  have codes: "statusCode Unauthorized = 401" "statusCode UsernameRequired = 400"
    by simp_all
  from unauth missing success codes show ?thesis by blast
qed


theorem ban_and_unban_witness:
  "\<not> strictEq (JString (js ''wrong'')) (Some (js ''secret'')) \<and>
   ban asciiToLowerCase (Some (js ''secret'')) 70000
     \<lparr>r_username = JString (js ''BOB''), r_adminKey = JString (js ''wrong'')\<rparr> twoJoined =
     (twoJoined, [Respond Unauthorized]) \<and>
   unban asciiToLowerCase (Some (js ''secret''))
     \<lparr>r_username = JString (js ''BOB''), r_adminKey = JString (js ''wrong'')\<rparr> twoJoined =
     (twoJoined, [Respond Unauthorized]) \<and>
   strictEq (JString (js ''secret'')) (Some (js ''secret'')) \<and> \<not> truthy JUndefined \<and>
   ban asciiToLowerCase (Some (js ''secret'')) 70000
     \<lparr>r_username = JUndefined, r_adminKey = JString (js ''secret'')\<rparr> twoJoined =
     (twoJoined, [Respond UsernameRequired]) \<and>
   unban asciiToLowerCase (Some (js ''secret''))
     \<lparr>r_username = JUndefined, r_adminKey = JString (js ''secret'')\<rparr> twoJoined =
     (twoJoined, [Respond UsernameRequired]) \<and>
   registryOk asciiToLowerCase (activeUsers twoJoined) \<and>
   map_of (activeUsers twoJoined) 8 =
     Some \<lparr>username = js ''bob'', joinTime = 60000, lastSeen = 60000, socketId = 8, status = None\<rparr> \<and>
   asciiToLowerCase (js ''bob'') = asciiToLowerCase (js ''BOB'') \<and> 8 \<in> sockets twoJoined \<and>
   bannedUsers (fst (ban asciiToLowerCase (Some (js ''secret'')) 70000
     \<lparr>r_username = JString (js ''BOB''), r_adminKey = JString (js ''secret'')\<rparr> twoJoined)) =
     {js ''bob''} \<and>
   snd (ban asciiToLowerCase (Some (js ''secret'')) 70000
     \<lparr>r_username = JString (js ''BOB''), r_adminKey = JString (js ''secret'')\<rparr> twoJoined) =
     [Emit (ToSocket 8) (Error Banned), Close 8,
      Emit (ToRoomExcept 8) (UserLeft (js ''bob'') 1 70000), Respond (BanDone (js ''BOB''))] \<and>
   ban asciiToLowerCase (Some (js ''secret'')) 70000
     \<lparr>r_username = JString (js ''Carol''), r_adminKey = JString (js ''secret'')\<rparr> twoJoined =
     (twoJoined\<lparr>bannedUsers := {js ''carol''}\<rparr>, [Respond (BanDone (js ''Carol''))])"
proof -
  let ?bob = "\<lparr>username = js ''bob'', joinTime = 60000, lastSeen = 60000, socketId = 8,
    status = None\<rparr>"
  let ?key = "Some (js ''secret'')"
  let ?bad = "\<lparr>r_username = JString (js ''BOB''), r_adminKey = JString (js ''wrong'')\<rparr>"
  let ?none = "\<lparr>r_username = JUndefined, r_adminKey = JString (js ''secret'')\<rparr>"
  let ?good = "\<lparr>r_username = JString (js ''BOB''), r_adminKey = JString (js ''secret'')\<rparr>"
  let ?carol = "\<lparr>r_username = JString (js ''Carol''), r_adminKey = JString (js ''secret'')\<rparr>"
  have h1: "\<not> strictEq (r_adminKey ?bad) ?key"
    by (simp add: js_def)
  have h2: "strictEq (r_adminKey ?none) ?key" "\<not> truthy (r_username ?none)"
    by simp_all
  have h3: "strictEq (r_adminKey ?good) ?key" "r_username ?good = JString (js ''BOB'')"
    "js ''BOB'' \<noteq> []"
    by (simp_all add: js_def)
  have h4: "strictEq (r_adminKey ?carol) ?key" "r_username ?carol = JString (js ''Carol'')"
    "js ''Carol'' \<noteq> []"
    by (simp_all add: js_def)
  have ok: "registryOk asciiToLowerCase (activeUsers twoJoined)"
    by (simp add: registryOk_def twoJoined_def lowerName_def string_defs)
  have u: "map_of (activeUsers twoJoined) 8 = Some ?bob"
    by (simp add: twoJoined_def)
  have eq: "asciiToLowerCase (username ?bob) = asciiToLowerCase (js ''BOB'')"
    by (simp add: string_defs)
  have live: "8 \<in> sockets twoJoined"
    by (simp add: twoJoined_def)
  have nobody: "\<forall>p \<in> set (activeUsers twoJoined).
      asciiToLowerCase (username (snd p)) \<noteq> asciiToLowerCase (js ''Carol'')"
    by (simp add: twoJoined_def string_defs)
  have vals: "length (activeUsers twoJoined) - 1 = 1" "bannedUsers twoJoined = {}"
    "asciiToLowerCase (js ''BOB'') = js ''bob''" "asciiToLowerCase (js ''Carol'') = js ''carol''"
    by (simp_all add: twoJoined_def string_defs)
  note B = ban_and_unban [where lc = asciiToLowerCase and key = ?key and now = 70000
      and st = twoJoined and req = ?bad and name = "js ''BOB''"]
  note M = ban_and_unban [where lc = asciiToLowerCase and key = ?key and now = 70000
      and st = twoJoined and req = ?none and name = "js ''BOB''"]
  note G = ban_and_unban [where lc = asciiToLowerCase and key = ?key and now = 70000
      and st = twoJoined and req = ?good and name = "js ''BOB''"]
  note C = ban_and_unban [where lc = asciiToLowerCase and key = ?key and now = 70000
      and st = twoJoined and req = ?carol and name = "js ''Carol''"]
  from B h1 have 1: "ban asciiToLowerCase ?key 70000 ?bad twoJoined = (twoJoined, [Respond Unauthorized])"
    and 2: "unban asciiToLowerCase ?key ?bad twoJoined = (twoJoined, [Respond Unauthorized])"
    by (blast+)
  from M h2 have 3: "ban asciiToLowerCase ?key 70000 ?none twoJoined =
      (twoJoined, [Respond UsernameRequired])"
    and 4: "unban asciiToLowerCase ?key ?none twoJoined = (twoJoined, [Respond UsernameRequired])"
    by (blast+)
  from G h3 have 5: "bannedUsers (fst (ban asciiToLowerCase ?key 70000 ?good twoJoined)) =
      insert (asciiToLowerCase (js ''BOB'')) (bannedUsers twoJoined)"
    by blast
  from G h3 have "\<forall>s u. registryOk asciiToLowerCase (activeUsers twoJoined) \<and>
      map_of (activeUsers twoJoined) s = Some u \<and>
      asciiToLowerCase (username u) = asciiToLowerCase (js ''BOB'') \<and> s \<in> sockets twoJoined \<longrightarrow>
      snd (ban asciiToLowerCase ?key 70000 ?good twoJoined) =
        [Emit (ToSocket s) (Error Banned), Close s,
         Emit (ToRoomExcept s) (UserLeft (username u) (length (activeUsers twoJoined) - 1) 70000),
         Respond (BanDone (js ''BOB''))] \<and>
      s \<notin> sockets (fst (ban asciiToLowerCase ?key 70000 ?good twoJoined)) \<and>
      map_of (activeUsers (fst (ban asciiToLowerCase ?key 70000 ?good twoJoined))) s = None"
    by blast
  with ok u eq live have 6: "snd (ban asciiToLowerCase ?key 70000 ?good twoJoined) =
        [Emit (ToSocket 8) (Error Banned), Close 8,
         Emit (ToRoomExcept 8) (UserLeft (username ?bob) (length (activeUsers twoJoined) - 1) 70000),
         Respond (BanDone (js ''BOB''))]"
    by blast
  from C h4 nobody have 7: "ban asciiToLowerCase ?key 70000 ?carol twoJoined =
      (twoJoined\<lparr>bannedUsers := insert (asciiToLowerCase (js ''Carol'')) (bannedUsers twoJoined)\<rparr>,
       [Respond (BanDone (js ''Carol''))])"
    by blast
  have h1': "\<not> strictEq (JString (js ''wrong'')) ?key"
    and h2': "strictEq (JString (js ''secret'')) ?key" "\<not> truthy JUndefined"
    using h1 h2 by simp_all
  have eq': "asciiToLowerCase (js ''bob'') = asciiToLowerCase (js ''BOB'')"
    using eq by simp
  have 5: "bannedUsers (fst (ban asciiToLowerCase ?key 70000 ?good twoJoined)) = {js ''bob''}"
    unfolding 5 vals ..
  have 6: "snd (ban asciiToLowerCase ?key 70000 ?good twoJoined) =
        [Emit (ToSocket 8) (Error Banned), Close 8,
         Emit (ToRoomExcept 8) (UserLeft (js ''bob'') 1 70000), Respond (BanDone (js ''BOB''))]"
    unfolding 6 vals by simp
  have 7: "ban asciiToLowerCase ?key 70000 ?carol twoJoined =
      (twoJoined\<lparr>bannedUsers := {js ''carol''}\<rparr>, [Respond (BanDone (js ''Carol''))])"
    unfolding 7 vals ..
  from h1' 1 2 h2' 3 4 ok u eq' live 5 6 7 show ?thesis by blast
qed

section \<open>Sanitized messages\<close>





lemma ciPrefix_drop: "ciPrefix p t \<Longrightarrow> length t = length p \<Longrightarrow> drop (length p) (t @ x) = x"
  by simp

















end
